theory Spec2Isabelle
  imports Complex_Main "HOL-Library.Log_Nat"
begin

section \<open>Numbers\<close>

text \<open>
  A TypeScript \<open>number\<close> is an IEEE 754 binary64 value: a finite double, one of the two
  zeros, one of the two infinities or NaN. A finite double is kept as the rational it
  denotes; \<open>Finite 0\<close> is the positive zero and \<open>NegZero\<close> the negative one. Every
  arithmetic operation computes the exact rational result and rounds it to the nearest
  double, ties to the even significand, as the default rounding mode of IEEE 754 does.
\<close>

datatype number = Finite rat | NegZero | PosInf | NegInf | NaN

text \<open>
  The binary exponent of a non-zero rational \<open>x\<close>, the integer \<open>e\<close> with
  \<open>pow2 e \<le> \<bar>x\<bar> < pow2 (e + 1)\<close>, and the distance between neighbouring doubles around
  \<open>x\<close>: 52 bits of fraction, and the spacing \<open>pow2 (- 1074)\<close> of the subnormal numbers
  below \<open>pow2 (- 1022)\<close>.
\<close>

definition pow2 :: "int \<Rightarrow> rat" where
  "pow2 e = power_int 2 e"

definition bexp :: "rat \<Rightarrow> int" where
  "bexp x = (if 1 \<le> \<bar>x\<bar> then bitlen \<lfloor>\<bar>x\<bar>\<rfloor> - 1 else - bitlen (\<lceil>1 / \<bar>x\<bar>\<rceil> - 1))"

definition quantum :: "rat \<Rightarrow> rat" where
  "quantum x = pow2 (max (bexp x) (- 1022) - 52)"

text \<open>Rounding to the nearest integer, a tie going to the even one.\<close>

definition rne :: "rat \<Rightarrow> int" where
  "rne y = (let f = \<lfloor>y\<rfloor>; d = y - of_int f
            in if d < 1 / 2 then f
               else if 1 / 2 < d then f + 1
               else if even f then f else f + 1)"

text \<open>
  Rounding to the nearest double with an unbounded exponent; \<open>fl\<close> is the result of an
  operation whose exact result is \<open>x\<close>: an infinity on overflow, a zero with the sign of
  \<open>x\<close> on underflow.
\<close>

definition round_double :: "rat \<Rightarrow> rat" where
  "round_double x = of_int (rne (x / quantum x)) * quantum x"

definition is_double :: "rat \<Rightarrow> bool" where
  "is_double x \<longleftrightarrow> round_double x = x \<and> \<bar>x\<bar> < 2 ^ 1024"

text \<open>The values of the datatype that are JavaScript numbers.\<close>

fun is_number :: "number \<Rightarrow> bool" where
  "is_number (Finite x) = is_double x"
| "is_number a = True"

definition zero :: "bool \<Rightarrow> number" where
  "zero negative = (if negative then NegZero else Finite 0)"

definition inf :: "bool \<Rightarrow> number" where
  "inf negative = (if negative then NegInf else PosInf)"

definition fl :: "rat \<Rightarrow> number" where
  "fl x = (let r = round_double x
           in if 2 ^ 1024 \<le> \<bar>r\<bar> then inf (x < 0)
              else if r = 0 then zero (x < 0)
              else Finite r)"

fun isnan :: "number \<Rightarrow> bool" where
  "isnan NaN = True"
| "isnan a = False"

fun isinf :: "number \<Rightarrow> bool" where
  "isinf PosInf = True"
| "isinf NegInf = True"
| "isinf a = False"

definition isfin :: "number \<Rightarrow> bool" where
  "isfin a \<longleftrightarrow> \<not> isnan a \<and> \<not> isinf a"

fun isneg :: "number \<Rightarrow> bool" where
  "isneg (Finite x) = (x < 0)"
| "isneg NegZero = True"
| "isneg NegInf = True"
| "isneg a = False"

fun ratval :: "number \<Rightarrow> rat" where
  "ratval (Finite x) = x"
| "ratval a = 0"

definition iszero :: "number \<Rightarrow> bool" where
  "iszero a = (a = Finite 0 \<or> a = NegZero)"

text \<open>
  The operators \<open>+\<close>, \<open>-\<close>, \<open>*\<close> and \<open>/\<close>. An exact result of zero takes its sign from
  the operands: a sum is \<open>-0\<close> only if both summands are negative zeros, a product or a
  quotient if the signs of the operands differ.
\<close>

fun js_neg :: "number \<Rightarrow> number" where
  "js_neg (Finite x) = (if x = 0 then NegZero else Finite (- x))"
| "js_neg NegZero = Finite 0"
| "js_neg PosInf = NegInf"
| "js_neg NegInf = PosInf"
| "js_neg NaN = NaN"

definition js_add :: "number \<Rightarrow> number \<Rightarrow> number" where
  "js_add a b =
     (if isnan a \<or> isnan b then NaN
      else if isinf a then (if isinf b \<and> b \<noteq> a then NaN else a)
      else if isinf b then b
      else let r = ratval a + ratval b
           in if r = 0 then zero (isneg a \<and> isneg b) else fl r)"

definition js_sub :: "number \<Rightarrow> number \<Rightarrow> number" where
  "js_sub a b = js_add a (js_neg b)"

definition js_mul :: "number \<Rightarrow> number \<Rightarrow> number" where
  "js_mul a b =
     (if isnan a \<or> isnan b then NaN
      else if (isinf a \<and> iszero b) \<or> (iszero a \<and> isinf b) then NaN
      else if isinf a \<or> isinf b then inf (isneg a \<noteq> isneg b)
      else let r = ratval a * ratval b
           in if r = 0 then zero (isneg a \<noteq> isneg b) else fl r)"

definition js_div :: "number \<Rightarrow> number \<Rightarrow> number" where
  "js_div a b =
     (if isnan a \<or> isnan b then NaN
      else if isinf a then (if isinf b then NaN else inf (isneg a \<noteq> isneg b))
      else if isinf b then zero (isneg a \<noteq> isneg b)
      else if iszero b then (if iszero a then NaN else inf (isneg a \<noteq> isneg b))
      else let r = ratval a / ratval b
           in if r = 0 then zero (isneg a \<noteq> isneg b) else fl r)"

text \<open>
  The comparisons \<open><\<close>, \<open><=\<close>, \<open>>=\<close> and \<open>==\<close> on numbers: false whenever an operand is
  NaN, and the two zeros are equal.
\<close>

definition js_lt :: "number \<Rightarrow> number \<Rightarrow> bool" where
  "js_lt a b =
     (\<not> isnan a \<and> \<not> isnan b \<and>
      (if a = NegInf then b \<noteq> NegInf
       else if b = PosInf then a \<noteq> PosInf
       else \<not> isinf a \<and> \<not> isinf b \<and> ratval a < ratval b))"

definition js_le :: "number \<Rightarrow> number \<Rightarrow> bool" where
  "js_le a b =
     (\<not> isnan a \<and> \<not> isnan b \<and>
      (a = NegInf \<or> b = PosInf \<or> (\<not> isinf a \<and> \<not> isinf b \<and> ratval a \<le> ratval b)))"

definition js_ge :: "number \<Rightarrow> number \<Rightarrow> bool" where
  "js_ge a b = js_le b a"

definition js_eq :: "number \<Rightarrow> number \<Rightarrow> bool" where
  "js_eq a b = (js_le a b \<and> js_le b a)"

text \<open>
  \<open>Math.round\<close>: the nearest integer, a tie going towards plus infinity; the result is
  \<open>-0\<close> for an argument from \<open>-0.5\<close> up to \<open>-0\<close>, and NaN and the infinities are returned
  as they are.
\<close>

fun Math_round :: "number \<Rightarrow> number" where
  "Math_round (Finite x) =
     (let n = \<lfloor>x + 1 / 2\<rfloor> in if n = 0 then zero (x < 0) else Finite (of_int n))"
| "Math_round a = a"

section \<open>types.ts\<close>

datatype InputType = Touch | Press | Scroll | Other

record FirstInputDelayMetrics =
  firstInputDelayMs :: number
  firstInputTimeMs :: number
  inputProcessingStartTimeMs :: number
  inputType :: InputType

record PerformanceMetrics =
  timeToFirstFrameMs :: number
  timeToInteractiveMs :: "number option"
  firstInputDelay :: "FirstInputDelayMetrics option"
  mountStartTimeMs :: number
  firstFrameTimeMs :: number
  interactiveTimeMs :: "number option"

datatype Category = Excellent | Good | NeedsImprovement | Poor

text \<open>
  \<open>PerformanceThresholds\<close>, \<open>MetricWeights\<close> and the \<open>breakdown\<close> of a score are three
  objects with the same keys \<open>ttff\<close>, \<open>tti\<close>, \<open>fid\<close>; one record, polymorphic in what
  is stored under a key, serves for all of them.
\<close>

record 'a PerMetric =
  ttff :: 'a
  tti :: 'a
  fid :: 'a

record Threshold =
  good :: number
  poor :: number

type_synonym PerformanceThresholds = "Threshold PerMetric"
type_synonym MetricWeights = "number PerMetric"

record PerformanceScore =
  overall :: number
  breakdown :: "number PerMetric"
  category :: Category

section \<open>scoring.ts\<close>

text \<open>
  The thresholds are integers, which are doubles. The weights are the decimal literals
  \<open>0.25\<close>, \<open>0.45\<close> and \<open>0.30\<close>: the doubles nearest to them.
\<close>

definition DEFAULT_THRESHOLDS :: PerformanceThresholds where
  "DEFAULT_THRESHOLDS =
     \<lparr>ttff = \<lparr>good = Finite 300, poor = Finite 800\<rparr>,
      tti = \<lparr>good = Finite 500, poor = Finite 1500\<rparr>,
      fid = \<lparr>good = Finite 50, poor = Finite 150\<rparr>\<rparr>"

definition DEFAULT_WEIGHTS :: MetricWeights where
  "DEFAULT_WEIGHTS = \<lparr>ttff = fl (25 / 100), tti = fl (45 / 100), fid = fl (30 / 100)\<rparr>"

definition calculateMetricScore :: "number \<Rightarrow> Threshold \<Rightarrow> number" where
  "calculateMetricScore val thresholds =
     (if js_le val (good thresholds) then Finite 100
      else if js_ge val (poor thresholds) then Finite 0
      else
        let range = js_sub (poor thresholds) (good thresholds);
            position = js_sub val (good thresholds)
        in Math_round (js_sub (Finite 100) (js_mul (js_div position range) (Finite 100))))"

definition getScoreCategory :: "number \<Rightarrow> Category" where
  "getScoreCategory score =
     (if js_ge score (Finite 90) then Excellent
      else if js_ge score (Finite 75) then Good
      else if js_ge score (Finite 50) then NeedsImprovement
      else Poor)"

definition calculatePerformanceScore ::
  "PerformanceMetrics \<Rightarrow> PerformanceThresholds \<Rightarrow> MetricWeights \<Rightarrow> PerformanceScore"
where
  "calculatePerformanceScore metrics thresholds weights =
     (let ttffScore = calculateMetricScore (timeToFirstFrameMs metrics) (ttff thresholds);
          ttiValue = (case timeToInteractiveMs metrics of
                        Some v \<Rightarrow> v | None \<Rightarrow> timeToFirstFrameMs metrics);
          ttiScore = calculateMetricScore ttiValue (tti thresholds);
          fidValue = (case firstInputDelay metrics of
                        Some d \<Rightarrow> firstInputDelayMs d | None \<Rightarrow> Finite 0);
          fidScore = calculateMetricScore fidValue (fid thresholds);
          overallScore = Math_round
            (js_add (js_add (js_mul ttffScore (ttff weights)) (js_mul ttiScore (tti weights)))
                    (js_mul fidScore (fid weights)))
      in \<lparr>overall = overallScore,
          breakdown = \<lparr>ttff = ttffScore, tti = ttiScore, fid = fidScore\<rparr>,
          category = getScoreCategory overallScore\<rparr>)"

text \<open>
  The interpolation in closed form, for a position \<open>p\<close> and a range \<open>r\<close> that are
  doubles: the quotient, the product and the difference are rounded in turn, then
  \<open>Math.round\<close> is applied.
\<close>

definition interpolate :: "rat \<Rightarrow> rat \<Rightarrow> int" where
  "interpolate p r =
     \<lfloor>round_double (100 - round_double (round_double (p / r) * 100)) + 1 / 2\<rfloor>"


section \<open>usePerformanceMeasurement.ts\<close>

text \<open>
  The hook keeps its data in refs and in two pieces of React state; all of them live in one
  record. What the hook hands to its collaborators is kept beside them: the queue of
  microtasks it has scheduled (\<open>queueMicrotask\<close>, first in, first out), the handles of
  the timers that are armed (\<open>setTimeout\<close> and \<open>clearTimeout\<close>) and the list of
  calls it has made to the three observers, oldest first. An absent observer
  (\<open>onReport?.(...)\<close>) changes nothing in the hook, so the list records every point at
  which an observer is called. Console output under \<open>debug\<close> is left out.

  \<open>Date.now()\<close> is an argument of every operation that reads the clock. A timer handle is
  a positive number or an object in every JavaScript runtime, hence truthy: the test
  \<open>if (fidTimeoutRef.current)\<close> is the test for \<open>Some\<close>.

  The hook always scores with the default thresholds and weights. In the React state
  \<open>None\<close> stands for \<open>null\<close>.
\<close>

datatype Microtask =
    FirstFrameTask
  | FirstInputTask number InputType

datatype Callback =
    MetricsReady PerformanceMetrics
  | Interactive PerformanceMetrics
  | Report PerformanceMetrics PerformanceScore

record HookState =
  mountStartTimeMsRef :: number
  firstFrameTimeMsRef :: "number option"
  interactiveTimeMsRef :: "number option"
  metricsRef :: "PerformanceMetrics option"
  hasLoggedRef :: bool
  metrics :: "PerformanceMetrics option"
  score :: "PerformanceScore option"
  firstInputDelayRef :: "FirstInputDelayMetrics option"
  hasRecordedFirstInputRef :: bool
  fidTimeoutRef :: "nat option"
  microtasks :: "Microtask list"
  timers :: "nat list"
  nextTimer :: nat
  calls :: "Callback list"

text \<open>The state after the first run of the hook body, at time \<open>now\<close>.\<close>

definition usePerformanceMeasurement :: "number \<Rightarrow> HookState" where
  "usePerformanceMeasurement now =
     \<lparr>mountStartTimeMsRef = now, firstFrameTimeMsRef = None, interactiveTimeMsRef = None,
      metricsRef = None, hasLoggedRef = False, metrics = None, score = None,
      firstInputDelayRef = None, hasRecordedFirstInputRef = False, fidTimeoutRef = None,
      microtasks = [], timers = [], nextTimer = 1, calls = []\<rparr>"

text \<open>
  Truthiness of a number (zero of either sign and NaN are falsy), and \<open>a || b\<close> where
  \<open>a\<close> may be undefined.
\<close>

definition truthy :: "number \<Rightarrow> bool" where
  "truthy x = (\<not> isnan x \<and> \<not> iszero x)"

definition js_or :: "number option \<Rightarrow> number option \<Rightarrow> number option" where
  "js_or a b = (case a of Some x \<Rightarrow> if truthy x then Some x else b | None \<Rightarrow> b)"

definition js_or_num :: "number option \<Rightarrow> number \<Rightarrow> number" where
  "js_or_num a d = (case a of Some x \<Rightarrow> if truthy x then x else d | None \<Rightarrow> d)"

definition setTimeout :: "HookState \<Rightarrow> nat \<times> HookState" where
  "setTimeout s =
     (nextTimer s, s\<lparr>timers := timers s @ [nextTimer s], nextTimer := Suc (nextTimer s)\<rparr>)"

definition clearTimeout :: "nat \<Rightarrow> HookState \<Rightarrow> HookState" where
  "clearTimeout h s = s\<lparr>timers := removeAll h (timers s)\<rparr>"

definition logFinalMetrics :: "HookState \<Rightarrow> HookState" where
  "logFinalMetrics s =
     (if hasLoggedRef s then s
      else case metricsRef s of
        None \<Rightarrow> s
      | Some current \<Rightarrow>
          let s1 = s\<lparr>hasLoggedRef := True\<rparr>;
              s2 = (case fidTimeoutRef s1 of
                      Some h \<Rightarrow> (clearTimeout h s1)\<lparr>fidTimeoutRef := None\<rparr>
                    | None \<Rightarrow> s1);
              finalMetrics = current
                \<lparr>timeToInteractiveMs :=
                   js_or (timeToInteractiveMs current)
                     (case interactiveTimeMsRef s2 of
                        Some i \<Rightarrow> if truthy i then Some (js_sub i (mountStartTimeMsRef s2)) else None
                      | None \<Rightarrow> None),
                 interactiveTimeMs :=
                   js_or (interactiveTimeMs current) (js_or (interactiveTimeMsRef s2) None),
                 firstInputDelay :=
                   (case firstInputDelayRef s2 of
                      Some d \<Rightarrow> Some d
                    | None \<Rightarrow> firstInputDelay current)\<rparr>;
              finalScore = calculatePerformanceScore finalMetrics DEFAULT_THRESHOLDS DEFAULT_WEIGHTS
          in s2\<lparr>metricsRef := Some finalMetrics, metrics := Some finalMetrics,
                score := Some finalScore,
                calls := calls s2 @ [Report finalMetrics finalScore]\<rparr>)"

text \<open>
  The gesture handler: the new state and the value the handler returns. The closure it
  queues keeps the time of the input and its kind.
\<close>

definition measureFirstInputDelay :: "InputType \<Rightarrow> number \<Rightarrow> HookState \<Rightarrow> HookState \<times> bool" where
  "measureFirstInputDelay kind now s =
     ((if \<not> hasRecordedFirstInputRef s
       then let inputTime = now
            in s\<lparr>hasRecordedFirstInputRef := True,
                 microtasks := microtasks s @ [FirstInputTask inputTime kind]\<rparr>
       else s),
      False)"

text \<open>The closure queued by \<open>measureFirstInputDelay\<close>, run at time \<open>now\<close>.\<close>

definition firstInputTask :: "number \<Rightarrow> InputType \<Rightarrow> number \<Rightarrow> HookState \<Rightarrow> HookState" where
  "firstInputTask inputTime kind now s =
     (let processingStartTime = now;
          fidMetrics = \<lparr>firstInputDelayMs = js_sub processingStartTime inputTime,
                        firstInputTimeMs = inputTime,
                        inputProcessingStartTimeMs = processingStartTime,
                        inputType = kind\<rparr>;
          s1 = s\<lparr>firstInputDelayRef := Some fidMetrics\<rparr>;
          s2 = (case metricsRef s1 of
                  Some current \<Rightarrow>
                    let updatedMetrics = current\<lparr>firstInputDelay := Some fidMetrics\<rparr>
                    in s1\<lparr>metricsRef := Some updatedMetrics, metrics := Some updatedMetrics,
                          score := Some (calculatePerformanceScore updatedMetrics
                                     DEFAULT_THRESHOLDS DEFAULT_WEIGHTS),
                          calls := calls s1 @ [MetricsReady updatedMetrics]\<rparr>
                | None \<Rightarrow> s1)
      in logFinalMetrics s2)"

definition onStartShouldSetPanResponder :: "number \<Rightarrow> HookState \<Rightarrow> HookState \<times> bool" where
  "onStartShouldSetPanResponder now s = measureFirstInputDelay Touch now s"

definition onMoveShouldSetPanResponder :: "number \<Rightarrow> HookState \<Rightarrow> HookState \<times> bool" where
  "onMoveShouldSetPanResponder now s = measureFirstInputDelay Scroll now s"

text \<open>The effect that captures the first frame, run at time \<open>now\<close>.\<close>

definition firstFrameEffect :: "number \<Rightarrow> HookState \<Rightarrow> HookState" where
  "firstFrameEffect now s =
     (let s1 = (if firstFrameTimeMsRef s = None then s\<lparr>firstFrameTimeMsRef := Some now\<rparr>
                else s)
      in s1\<lparr>microtasks := microtasks s1 @ [FirstFrameTask]\<rparr>)"

text \<open>
  The closure queued by the effect. Its non-null assertions on \<open>firstFrameTimeMsRef\<close> hold
  because the effect sets the ref before it queues the closure and nothing resets it; the
  model leaves the state alone in the other case.
\<close>

definition firstFrameTask :: "HookState \<Rightarrow> HookState" where
  "firstFrameTask s =
     (case firstFrameTimeMsRef s of
        None \<Rightarrow> s
      | Some firstFrame \<Rightarrow>
          let initialMetrics =
                \<lparr>timeToFirstFrameMs = js_sub firstFrame (mountStartTimeMsRef s),
                 timeToInteractiveMs = None,
                 firstInputDelay = None,
                 mountStartTimeMs = mountStartTimeMsRef s,
                 firstFrameTimeMs = firstFrame,
                 interactiveTimeMs = None\<rparr>
          in s\<lparr>metricsRef := Some initialMetrics, metrics := Some initialMetrics,
                score := Some (calculatePerformanceScore initialMetrics
                           DEFAULT_THRESHOLDS DEFAULT_WEIGHTS),
                calls := calls s @ [MetricsReady initialMetrics]\<rparr>)"

definition markInteractive :: "number \<Rightarrow> HookState \<Rightarrow> HookState" where
  "markInteractive now s =
     (if interactiveTimeMsRef s \<noteq> None then s
      else
        let s1 = s\<lparr>interactiveTimeMsRef := Some now\<rparr>;
            updatedMetrics =
              \<lparr>timeToFirstFrameMs =
                 js_or_num (map_option timeToFirstFrameMs (metricsRef s1)) (Finite 0),
               timeToInteractiveMs = Some (js_sub now (mountStartTimeMsRef s1)),
               firstInputDelay =
                 (case firstInputDelayRef s1 of
                    Some d \<Rightarrow> Some d
                  | None \<Rightarrow> Option.bind (metricsRef s1) firstInputDelay),
               mountStartTimeMs = mountStartTimeMsRef s1,
               firstFrameTimeMs = js_or_num (map_option firstFrameTimeMs (metricsRef s1)) (Finite 0),
               interactiveTimeMs = Some now\<rparr>;
            s2 = s1\<lparr>metricsRef := Some updatedMetrics, metrics := Some updatedMetrics,
                    score := Some (calculatePerformanceScore updatedMetrics
                               DEFAULT_THRESHOLDS DEFAULT_WEIGHTS),
                    calls := calls s1 @ [Interactive updatedMetrics]\<rparr>
        in if \<not> hasLoggedRef s2 \<and> fidTimeoutRef s2 = None
           then let (h, s3) = setTimeout s2 in s3\<lparr>fidTimeoutRef := Some h\<rparr>
           else s2)"

text \<open>The cleanup of the second effect, run when the component unmounts.\<close>

definition cleanup :: "HookState \<Rightarrow> HookState" where
  "cleanup s = (case fidTimeoutRef s of Some h \<Rightarrow> clearTimeout h s | None \<Rightarrow> s)"

subsection \<open>The event loop\<close>

text \<open>
  What can happen to a mounted hook, one event at a time: React runs the first-frame effect
  (again whenever one of its dependencies changes), the component calls \<open>markInteractive\<close>,
  the gesture system asks one of the two pan handlers, the runtime runs the oldest queued
  microtask, an armed timer fires (the runtime disarms it and calls \<open>logFinalMetrics\<close>),
  the component unmounts. How long a timer waits is not modelled: an armed timer may fire at
  any later point. Events may come in any order; the order React imposes, the first-frame
  effect before anything else, is a hypothesis where a theorem needs it.
\<close>

datatype Event =
    Effect number
  | MarkInteractive number
  | TouchStart number
  | MoveStart number
  | RunMicrotask number
  | TimerFires nat
  | Unmount

fun runTask :: "Microtask \<Rightarrow> number \<Rightarrow> HookState \<Rightarrow> HookState" where
  "runTask FirstFrameTask now s = firstFrameTask s"
| "runTask (FirstInputTask inputTime kind) now s = firstInputTask inputTime kind now s"

fun step :: "HookState \<Rightarrow> Event \<Rightarrow> HookState" where
  "step s (Effect now) = firstFrameEffect now s"
| "step s (MarkInteractive now) = markInteractive now s"
| "step s (TouchStart now) = fst (onStartShouldSetPanResponder now s)"
| "step s (MoveStart now) = fst (onMoveShouldSetPanResponder now s)"
| "step s (RunMicrotask now) =
     (case microtasks s of
        [] \<Rightarrow> s
      | task # rest \<Rightarrow> runTask task now (s\<lparr>microtasks := rest\<rparr>))"
| "step s (TimerFires h) =
     (if h \<in> set (timers s) then logFinalMetrics (clearTimeout h s) else s)"
| "step s Unmount = cleanup s"

definition run :: "Event list \<Rightarrow> HookState \<Rightarrow> HookState" where
  "run es s = foldl step s es"

text \<open>What the proofs count and collect.\<close>

fun isInteractive :: "Callback \<Rightarrow> bool" where
  "isInteractive (Interactive m) = True"
| "isInteractive c = False"

fun isReport :: "Callback \<Rightarrow> bool" where
  "isReport (Report m sc) = True"
| "isReport c = False"

fun isFirstInputTask :: "Microtask \<Rightarrow> bool" where
  "isFirstInputTask (FirstInputTask inputTime kind) = True"
| "isFirstInputTask FirstFrameTask = False"

fun callbackMetrics :: "Callback \<Rightarrow> PerformanceMetrics" where
  "callbackMetrics (MetricsReady m) = m"
| "callbackMetrics (Interactive m) = m"
| "callbackMetrics (Report m sc) = m"

text \<open>
  Every first-input record the hook holds or has handed out: in its ref, in the metrics of
  the ref and of the React state, in the metrics passed to an observer.
\<close>

definition firstInputRecords :: "HookState \<Rightarrow> FirstInputDelayMetrics list" where
  "firstInputRecords s =
     List.map_filter id
       (firstInputDelayRef s
        # Option.bind (metricsRef s) firstInputDelay
        # Option.bind (metrics s) firstInputDelay
        # map (firstInputDelay \<circ> callbackMetrics) (calls s))"

subsection \<open>Invariants of the event loop\<close>

text \<open>What holds of the \<open>onInteractive\<close> calls in every state a run can reach.\<close>

definition interactiveOnce :: "HookState \<Rightarrow> bool" where
  "interactiveOnce s \<longleftrightarrow>
     length (filter isInteractive (calls s)) \<le> 1
     \<and> (interactiveTimeMsRef s = None \<longrightarrow> filter isInteractive (calls s) = [])"

text \<open>
  What holds of first-input records: at most one closure is waiting, none once a record is
  stored, and every record anywhere is the one in \<open>firstInputDelayRef\<close>.
\<close>

definition firstInputOnce :: "HookState \<Rightarrow> bool" where
  "firstInputOnce s \<longleftrightarrow>
     length (filter isFirstInputTask (microtasks s)) \<le> 1
     \<and> (\<not> hasRecordedFirstInputRef s \<longrightarrow>
          filter isFirstInputTask (microtasks s) = [] \<and> firstInputDelayRef s = None)
     \<and> (filter isFirstInputTask (microtasks s) \<noteq> [] \<longrightarrow> firstInputDelayRef s = None)
     \<and> (\<forall>d. d \<in> set (firstInputRecords s) \<longrightarrow> firstInputDelayRef s = Some d)"

text \<open>The first gesture of a list of events, and how the hook's state reflects it.\<close>

fun gesture :: "Event \<Rightarrow> (number \<times> InputType) option" where
  "gesture (TouchStart now) = Some (now, Touch)"
| "gesture (MoveStart now) = Some (now, Scroll)"
| "gesture e = None"

fun firstGesture :: "Event list \<Rightarrow> (number \<times> InputType) option" where
  "firstGesture [] = None"
| "firstGesture (e # es) = (case gesture e of Some g \<Rightarrow> Some g | None \<Rightarrow> firstGesture es)"

definition firstWins :: "Event list \<Rightarrow> HookState \<Rightarrow> bool" where
  "firstWins es s \<longleftrightarrow>
     (hasRecordedFirstInputRef s \<longleftrightarrow> firstGesture es \<noteq> None)
     \<and> (\<forall>inputTime k. FirstInputTask inputTime k \<in> set (microtasks s) \<longrightarrow>
           firstGesture es = Some (inputTime, k))
     \<and> (\<forall>d. firstInputDelayRef s = Some d \<longrightarrow>
           firstGesture es = Some (firstInputTimeMs d, inputType d))"

text \<open>
  What holds of \<open>onReport\<close> and of the timer: no report before \<open>hasLoggedRef\<close> is set, no
  armed timer after, at most the one timer of \<open>fidTimeoutRef\<close>, and none before the metrics
  exist.
\<close>

definition reportOnce :: "HookState \<Rightarrow> bool" where
  "reportOnce s \<longleftrightarrow>
     length (filter isReport (calls s)) \<le> 1
     \<and> (\<not> hasLoggedRef s \<longrightarrow> filter isReport (calls s) = [])
     \<and> (hasLoggedRef s \<longrightarrow> timers s = [])
     \<and> (timers s = [] \<or> (\<exists>h. timers s = [h] \<and> fidTimeoutRef s = Some h))
     \<and> (timers s \<noteq> [] \<longrightarrow> metricsRef s \<noteq> None)"

text \<open>
  The state right after a finalization: the guard is set, no timer is armed, and the last
  call, the only call of \<open>onReport\<close>, carries the metrics now stored and their score.
\<close>

definition finalized :: "HookState \<Rightarrow> bool" where
  "finalized s \<longleftrightarrow>
     hasLoggedRef s \<and> timers s = [] \<and> fidTimeoutRef s = None
     \<and> (case metricsRef s of
          None \<Rightarrow> False
        | Some m \<Rightarrow>
            metrics s = Some m
            \<and> score s = Some (calculatePerformanceScore m DEFAULT_THRESHOLDS DEFAULT_WEIGHTS)
            \<and> filter isReport (calls s)
                = [Report m (calculatePerformanceScore m DEFAULT_THRESHOLDS DEFAULT_WEIGHTS)]
            \<and> last (calls s)
                = Report m (calculatePerformanceScore m DEFAULT_THRESHOLDS DEFAULT_WEIGHTS))"

text \<open>A waiting first-frame closure finds the timestamp of the first frame set.\<close>

definition frameStamped :: "HookState \<Rightarrow> bool" where
  "frameStamped s \<longleftrightarrow>
     (FirstFrameTask \<in> set (microtasks s) \<longrightarrow> firstFrameTimeMsRef s \<noteq> None)"

text \<open>
  In a run that began with the first-frame effect, the closure of that effect is at the
  head of the queue for as long as the metrics are missing.
\<close>

definition firstFrameFirst :: "HookState \<Rightarrow> bool" where
  "firstFrameFirst s \<longleftrightarrow>
     (metricsRef s = None \<longrightarrow>
        firstFrameTimeMsRef s \<noteq> None \<and> (\<exists>rest. microtasks s = FirstFrameTask # rest))"


section \<open>Rounding to a double\<close>

lemma pow2_pos [simp]: "0 < pow2 e"
  by (simp add: pow2_def)

lemma pow2_mono: "e \<le> e' \<Longrightarrow> pow2 e \<le> pow2 e'"
  unfolding pow2_def by (rule power_int_increasing) simp_all

lemma pow2_strict_mono: "e < e' \<Longrightarrow> pow2 e < pow2 e'"
  unfolding pow2_def by (rule power_int_strict_increasing) simp_all

lemma pow2_less_imp: "pow2 e < pow2 e' \<Longrightarrow> e < e'"
  using pow2_mono [of e' e] by (cases "e < e'") auto

lemma pow2_add: "pow2 (a + b) = pow2 a * pow2 b"
  unfolding pow2_def by (rule power_int_add) simp

lemma pow2_diff: "pow2 (a - b) = pow2 a / pow2 b"
  unfolding pow2_def by (rule power_int_diff) simp

lemma pow2_nat: "0 \<le> e \<Longrightarrow> pow2 e = 2 ^ nat e"
  by (simp add: pow2_def power_int_def)

lemma pow2_Ints: "0 \<le> e \<Longrightarrow> pow2 e \<in> \<int>"
  by (simp add: pow2_nat)

lemma pow2_0 [simp]: "pow2 0 = 1"
  by (simp add: pow2_def)

text \<open>The binary exponent.\<close>

lemma bexp_bounds:
  assumes "x \<noteq> 0"
  shows "pow2 (bexp x) \<le> \<bar>x\<bar>" and "\<bar>x\<bar> < pow2 (bexp x + 1)"
proof -
  show "pow2 (bexp x) \<le> \<bar>x\<bar>"
  proof (cases "1 \<le> \<bar>x\<bar>")
    case True
    define n where "n = \<lfloor>\<bar>x\<bar>\<rfloor>"
    have n: "0 < n" using True by (simp add: n_def)
    have b: "1 \<le> bitlen n" using n by (simp add: bitlen_alt_def)
    have "(2::int) ^ nat (bitlen n - 1) \<le> n" using bitlen_bounds [OF n] by simp
    then have "(2::rat) ^ nat (bitlen n - 1) \<le> of_int n"
      by (simp only: numeral_power_le_of_int_cancel_iff)
    also have "\<dots> \<le> \<bar>x\<bar>" by (simp add: n_def)
    finally show ?thesis using True b by (simp add: bexp_def n_def pow2_nat)
  next
    case False
    define y where "y = 1 / \<bar>x\<bar>"
    define m where "m = \<lceil>y\<rceil>"
    have y: "1 < y" using False assms by (simp add: y_def)
    have m: "0 < m - 1" using y by (simp add: m_def)
    define k where "k = bitlen (m - 1)"
    have k: "1 \<le> k" using m by (simp add: k_def bitlen_alt_def)
    have "m - 1 < 2 ^ nat k" using bitlen_bounds [OF m] by (simp add: k_def)
    then have "m \<le> 2 ^ nat k" by simp
    then have "(of_int m :: rat) \<le> 2 ^ nat k" by simp
    moreover have "y \<le> of_int m" by (simp add: m_def)
    ultimately have "y \<le> 2 ^ nat k" by (rule order_trans [rotated])
    then have "1 / 2 ^ nat k \<le> \<bar>x\<bar>"
      using assms by (simp add: y_def field_simps)
    moreover have "pow2 (- k) = 1 / 2 ^ nat k"
      using k by (simp add: pow2_def power_int_def inverse_eq_divide power_one_over)
    ultimately show ?thesis using False by (simp add: bexp_def y_def m_def k_def)
  qed
  show "\<bar>x\<bar> < pow2 (bexp x + 1)"
  proof (cases "1 \<le> \<bar>x\<bar>")
    case True
    define n where "n = \<lfloor>\<bar>x\<bar>\<rfloor>"
    have n: "0 < n" using True by (simp add: n_def)
    have b: "1 \<le> bitlen n" using n by (simp add: bitlen_alt_def)
    have "n < 2 ^ nat (bitlen n)" using bitlen_bounds [OF n] by simp
    then have "n + 1 \<le> 2 ^ nat (bitlen n)" by simp
    then have "(of_int (n + 1) :: rat) \<le> 2 ^ nat (bitlen n)"
      by (simp only: of_int_le_numeral_power_cancel_iff)
    moreover have "\<bar>x\<bar> < of_int (n + 1)" unfolding n_def by linarith
    ultimately have "\<bar>x\<bar> < 2 ^ nat (bitlen n)" by (rule less_le_trans [rotated])
    then show ?thesis using True b by (simp add: bexp_def n_def pow2_nat)
  next
    case False
    define y where "y = 1 / \<bar>x\<bar>"
    define m where "m = \<lceil>y\<rceil>"
    have y: "1 < y" using False assms by (simp add: y_def)
    have m: "0 < m - 1" using y by (simp add: m_def)
    define k where "k = bitlen (m - 1)"
    have k: "1 \<le> k" using m by (simp add: k_def bitlen_alt_def)
    have "(2::int) ^ nat (k - 1) \<le> m - 1" using bitlen_bounds [OF m] by (simp add: k_def)
    then have "(2::rat) ^ nat (k - 1) \<le> of_int (m - 1)"
      by (simp only: numeral_power_le_of_int_cancel_iff)
    moreover have "of_int (m - 1) < y" unfolding m_def by linarith
    ultimately have "2 ^ nat (k - 1) < y" by (rule le_less_trans)
    then have "\<bar>x\<bar> < 1 / 2 ^ nat (k - 1)"
      using assms by (simp add: y_def field_simps)
    moreover have "pow2 (- k + 1) = 1 / 2 ^ nat (k - 1)"
    proof -
      have "- k + 1 = - (k - 1)" by simp
      then show ?thesis
        using k by (simp add: pow2_def power_int_def inverse_eq_divide power_one_over)
    qed
    ultimately show ?thesis using False by (simp add: bexp_def y_def m_def k_def)
  qed
qed

lemma bexp_unique:
  assumes "pow2 e \<le> \<bar>x\<bar>" and "\<bar>x\<bar> < pow2 (e + 1)"
  shows "bexp x = e"
proof -
  have "0 < \<bar>x\<bar>" using assms(1) pow2_pos [of e] by linarith
  then have nz: "x \<noteq> 0" by simp
  have "pow2 (bexp x) < pow2 (e + 1)" using bexp_bounds(1) [OF nz] assms(2) by simp
  then have a: "bexp x < e + 1" by (rule pow2_less_imp)
  have "pow2 e < pow2 (bexp x + 1)" using bexp_bounds(2) [OF nz] assms(1) by simp
  then have "e < bexp x + 1" by (rule pow2_less_imp)
  with a show ?thesis by simp
qed

lemma bexp_le:
  assumes "x \<noteq> 0" and "\<bar>x\<bar> < pow2 (e + 1)"
  shows "bexp x \<le> e"
proof -
  have "pow2 (bexp x) < pow2 (e + 1)" using bexp_bounds(1) [OF assms(1)] assms(2) by simp
  then have "bexp x < e + 1" by (rule pow2_less_imp)
  then show ?thesis by simp
qed

lemma bexp_ge:
  assumes "pow2 e \<le> \<bar>x\<bar>"
  shows "e \<le> bexp x"
proof -
  have "0 < \<bar>x\<bar>" using assms pow2_pos [of e] by linarith
  then have nz: "x \<noteq> 0" by simp
  have "pow2 e < pow2 (bexp x + 1)" using bexp_bounds(2) [OF nz] assms by simp
  then have "e < bexp x + 1" by (rule pow2_less_imp)
  then show ?thesis by simp
qed

lemma bexp_mono:
  assumes "x \<noteq> 0" and "\<bar>x\<bar> \<le> \<bar>y\<bar>"
  shows "bexp x \<le> bexp y"
  using bexp_ge [of "bexp x" y] bexp_bounds(1) [OF assms(1)] assms(2) by simp

lemma bexp_minus [simp]: "bexp (- x) = bexp x"
  by (simp add: bexp_def)

lemma quantum_minus [simp]: "quantum (- x) = quantum x"
  by (simp add: quantum_def)

lemma quantum_pos [simp]: "0 < quantum x"
  by (simp add: quantum_def)

lemma quantum_nonneg [simp]: "0 \<le> quantum x"
  using quantum_pos [of x] by (rule less_imp_le)

lemma quantum_nonzero [simp]: "quantum x \<noteq> 0"
  using quantum_pos [of x] by (rule less_imp_neq [symmetric])

text \<open>Rounding to an integer, ties to even.\<close>

lemma rne_cases: "rne y = \<lfloor>y\<rfloor> \<or> rne y = \<lfloor>y\<rfloor> + 1"
  by (simp add: rne_def Let_def)

lemma rne_of_int [simp]: "rne (of_int n) = n"
  by (simp add: rne_def Let_def)

lemma rne_Ints: "y \<in> \<int> \<Longrightarrow> of_int (rne y) = y"
  by (auto elim!: Ints_cases)

lemma rne_lower: "\<lfloor>y\<rfloor> \<le> rne y"
  using rne_cases [of y] by auto

lemma rne_upper: "rne y \<le> \<lfloor>y\<rfloor> + 1"
  using rne_cases [of y] by auto

lemma rne_mono:
  assumes "x \<le> y"
  shows "rne x \<le> rne y"
proof (cases "\<lfloor>x\<rfloor> < \<lfloor>y\<rfloor>")
  case True
  then have "rne x \<le> \<lfloor>y\<rfloor>" using rne_upper [of x] by simp
  then show ?thesis using rne_lower [of y] by simp
next
  case False
  then have f: "\<lfloor>x\<rfloor> = \<lfloor>y\<rfloor>" using floor_mono [OF assms] by simp
  then have "x - of_int \<lfloor>x\<rfloor> \<le> y - of_int \<lfloor>y\<rfloor>" using assms by simp
  then show ?thesis unfolding rne_def Let_def f by auto
qed

lemma rne_minus: "rne (- y) = - rne y"
proof (cases "y \<in> \<int>")
  case True
  then obtain n where "y = of_int n" by (auto elim: Ints_cases)
  then have "- y = of_int (- n)" by simp
  then show ?thesis unfolding \<open>y = of_int n\<close> by (simp only: rne_of_int)
next
  case False
  define f where "f = \<lfloor>y\<rfloor>"
  define d where "d = y - of_int f"
  have ne: "y \<noteq> of_int \<lfloor>y\<rfloor>" using False by (metis Ints_of_int)
  have fl: "\<lfloor>- y\<rfloor> = - f - 1"
    using ne by (simp add: f_def floor_minus ceiling_altdef)
  have "of_int \<lfloor>y\<rfloor> < y"
    using of_int_floor_le ne [symmetric] by (rule le_neq_trans)
  then have d: "0 < d" "d < 1"
    unfolding d_def f_def by linarith+
  have d': "- y - of_int (- f - 1) = 1 - d" by (simp add: d_def)
  have e: "even (- f - 1) \<longleftrightarrow> odd f" by simp
  show ?thesis
    unfolding rne_def Let_def fl d' e
    unfolding f_def [symmetric] d_def [symmetric]
    using d by auto
qed

lemma rne_zero [simp]: "rne 0 = 0"
  using rne_of_int [of 0] by simp

text \<open>Rounding to a double.\<close>

lemma round_double_zero [simp]: "round_double 0 = 0"
  by (simp add: round_double_def)

lemma round_double_minus: "round_double (- x) = - round_double x"
  by (simp add: round_double_def rne_minus)

lemma round_double_grid:
  assumes "x / quantum x \<in> \<int>"
  shows "round_double x = x"
  using rne_Ints [OF assms] by (simp add: round_double_def)

lemma round_double_le:
  assumes "x \<le> c" and "c / quantum x \<in> \<int>"
  shows "round_double x \<le> c"
proof -
  have "x / quantum x \<le> c / quantum x" using assms(1) by (simp add: divide_right_mono)
  then have "rne (x / quantum x) \<le> rne (c / quantum x)" by (rule rne_mono)
  then have "(of_int (rne (x / quantum x)) :: rat) \<le> of_int (rne (c / quantum x))" by simp
  also have "\<dots> = c / quantum x" by (rule rne_Ints [OF assms(2)])
  finally show ?thesis by (simp add: round_double_def pos_le_divide_eq)
qed

lemma round_double_ge:
  assumes "c \<le> x" and "c / quantum x \<in> \<int>"
  shows "c \<le> round_double x"
proof -
  have "c / quantum x \<le> x / quantum x" using assms(1) by (simp add: divide_right_mono)
  then have "rne (c / quantum x) \<le> rne (x / quantum x)" by (rule rne_mono)
  then have "(of_int (rne (c / quantum x)) :: rat) \<le> of_int (rne (x / quantum x))" by simp
  moreover have "of_int (rne (c / quantum x)) = c / quantum x" by (rule rne_Ints [OF assms(2)])
  ultimately have "c / quantum x \<le> of_int (rne (x / quantum x))" by simp
  then show ?thesis by (simp add: round_double_def pos_divide_le_eq)
qed

lemma round_double_nonneg: "0 \<le> x \<Longrightarrow> 0 \<le> round_double x"
  by (rule round_double_ge) simp_all

lemma round_double_nonpos: "x \<le> 0 \<Longrightarrow> round_double x \<le> 0"
  by (rule round_double_le) simp_all

lemma round_double_mono_pos:
  assumes "0 < x" and "x \<le> y"
  shows "round_double x \<le> round_double y"
proof -
  have nz: "x \<noteq> 0" "y \<noteq> 0" using assms by auto
  have e: "bexp x \<le> bexp y" using bexp_mono [OF nz(1), of y] assms by simp
  define jx where "jx = max (bexp x) (- 1022) - 52"
  define jy where "jy = max (bexp y) (- 1022) - 52"
  have qx: "quantum x = pow2 jx" and qy: "quantum y = pow2 jy"
    by (simp_all add: quantum_def jx_def jy_def)
  show ?thesis
  proof (cases "jx = jy")
    case True
    then have q: "quantum x = quantum y" by (simp add: qx qy)
    have "x / quantum y \<le> y / quantum y" using assms(2) by (simp add: divide_right_mono)
    then have "rne (x / quantum y) \<le> rne (y / quantum y)" by (rule rne_mono)
    then have "(of_int (rne (x / quantum y)) :: rat) \<le> of_int (rne (y / quantum y))" by simp
    then show ?thesis by (simp add: round_double_def q)
  next
    case False
    then have lt: "bexp x < bexp y" "- 1022 < bexp y" using e by (auto simp: jx_def jy_def)
    define c where "c = pow2 (bexp y)"
    have "\<bar>x\<bar> < pow2 (bexp x + 1)" by (rule bexp_bounds(2) [OF nz(1)])
    also have "\<dots> \<le> c" unfolding c_def using lt(1) by (intro pow2_mono) simp
    finally have xc: "x \<le> c" using assms(1) by simp
    have cy: "c \<le> y" unfolding c_def using bexp_bounds(1) [OF nz(2)] assms by simp
    have "c / quantum x = pow2 (bexp y - jx)" by (simp add: c_def qx pow2_diff)
    moreover have "0 \<le> bexp y - jx" using lt by (simp add: jx_def)
    ultimately have gx: "c / quantum x \<in> \<int>" by (simp add: pow2_Ints)
    have "c / quantum y = pow2 (bexp y - jy)" by (simp add: c_def qy pow2_diff)
    moreover have "0 \<le> bexp y - jy" using lt by (simp add: jy_def)
    ultimately have gy: "c / quantum y \<in> \<int>" by (simp add: pow2_Ints)
    have "round_double x \<le> c" using xc gx by (rule round_double_le)
    also have "c \<le> round_double y" using cy gy by (rule round_double_ge)
    finally show ?thesis .
  qed
qed

lemma round_double_mono:
  assumes "x \<le> y"
  shows "round_double x \<le> round_double y"
proof -
  consider "0 < x" | "x \<le> 0" "0 \<le> y" | "y < 0" by linarith
  then show ?thesis
  proof cases
    case 1
    then show ?thesis using assms by (rule round_double_mono_pos)
  next
    case 2
    then show ?thesis
      using round_double_nonpos [of x] round_double_nonneg [of y] by simp
  next
    case 3
    then have "0 < - y" "- y \<le> - x" using assms by simp_all
    then have "round_double (- y) \<le> round_double (- x)" by (rule round_double_mono_pos)
    then show ?thesis by (simp add: round_double_minus)
  qed
qed

lemma pow2_nonzero [simp]: "pow2 e \<noteq> 0"
  using pow2_pos [of e] by (rule less_imp_neq [symmetric])

lemma pow2_nonneg [simp]: "0 \<le> pow2 e"
  using pow2_pos [of e] by (rule less_imp_le)

lemma pow2_abs [simp]: "\<bar>pow2 e\<bar> = pow2 e"
  by (rule abs_of_nonneg) simp

lemma quantum_pow2: "quantum x = pow2 (max (bexp x) (- 1022) - 52)"
  by (simp add: quantum_def)

lemma round_double_on_grid:
  assumes "x / pow2 a \<in> \<int>" and "max (bexp x) (- 1022) - 52 \<le> a"
  shows "round_double x = x"
proof (rule round_double_grid)
  define j where "j = max (bexp x) (- 1022) - 52"
  have "x / quantum x = (x / pow2 a) * pow2 (a - j)"
    by (simp add: quantum_pow2 j_def pow2_diff)
  moreover have "pow2 (a - j) \<in> \<int>" using assms(2) by (intro pow2_Ints) (simp add: j_def)
  ultimately show "x / quantum x \<in> \<int>" using assms(1) by (simp only: Ints_mult)
qed

lemma pow2_numeral: "pow2 (numeral n) = 2 ^ numeral n"
  by (simp add: pow2_def)

lemma round_double_int:
  assumes "\<bar>of_int k :: rat\<bar> < 2 ^ 53"
  shows "round_double (of_int k) = of_int k"
proof (cases "k = 0")
  case True
  then show ?thesis by simp
next
  case False
  then have nz: "(of_int k :: rat) \<noteq> 0" by simp
  have "\<bar>of_int k :: rat\<bar> < pow2 (52 + 1)" using assms by (simp add: pow2_numeral)
  then have "bexp (of_int k) \<le> 52" by (rule bexp_le [OF nz])
  then have "max (bexp (of_int k)) (- 1022) - 52 \<le> 0" by simp
  moreover have "(of_int k :: rat) / pow2 0 \<in> \<int>" by simp
  ultimately show ?thesis by (rule round_double_on_grid [rotated])
qed

lemma round_double_half_int:
  assumes "\<bar>of_int k / 2 :: rat\<bar> < 2 ^ 52"
  shows "round_double (of_int k / 2) = of_int k / 2"
proof (cases "k = 0")
  case True
  then show ?thesis by simp
next
  case False
  then have nz: "(of_int k / 2 :: rat) \<noteq> 0" by simp
  have "\<bar>of_int k / 2 :: rat\<bar> < pow2 (51 + 1)" using assms by (simp add: pow2_numeral)
  then have "bexp (of_int k / 2) \<le> 51" by (rule bexp_le [OF nz])
  then have "max (bexp (of_int k / 2)) (- 1022) - 52 \<le> - 1" by simp
  moreover have "(of_int k / 2 :: rat) / pow2 (- 1) \<in> \<int>"
    by (simp add: pow2_def)
  ultimately show ?thesis by (rule round_double_on_grid [rotated])
qed

lemma round_double_pow2:
  assumes "- 1074 \<le> e"
  shows "round_double (pow2 e) = pow2 e"
proof -
  have "pow2 e \<le> \<bar>pow2 e\<bar>" by simp
  moreover have "\<bar>pow2 e\<bar> < pow2 (e + 1)" using pow2_strict_mono [of e "e + 1"] by simp
  ultimately have b: "bexp (pow2 e) = e" by (rule bexp_unique)
  define j where "j = max e (- 1022) - 52"
  have "pow2 e / quantum (pow2 e) = pow2 (e - j)" by (simp add: quantum_pow2 b j_def pow2_diff)
  moreover have "0 \<le> e - j" using assms by (simp add: j_def)
  ultimately have "pow2 e / quantum (pow2 e) \<in> \<int>" by (simp add: pow2_Ints)
  then show ?thesis by (rule round_double_grid)
qed

lemma round_double_le_int:
  assumes "x \<le> of_int c" and "\<bar>x\<bar> < 2 ^ 53"
  shows "round_double x \<le> of_int c"
proof (cases "x = 0")
  case True
  then show ?thesis using assms by simp
next
  case False
  have "\<bar>x\<bar> < pow2 (52 + 1)" using assms(2) by (simp add: pow2_numeral)
  then have "bexp x \<le> 52" by (rule bexp_le [OF False])
  then have j: "0 \<le> - (max (bexp x) (- 1022) - 52)" by simp
  have "of_int c / quantum x = of_int c * pow2 (- (max (bexp x) (- 1022) - 52))"
    using pow2_diff [of 0 "max (bexp x) (- 1022) - 52"] by (simp add: quantum_pow2)
  then have "of_int c / quantum x \<in> \<int>" using pow2_Ints [OF j] by simp
  with assms(1) show ?thesis by (rule round_double_le)
qed

lemma round_double_ge_int:
  assumes "of_int c \<le> x" and "\<bar>x\<bar> < 2 ^ 53"
  shows "of_int c \<le> round_double x"
proof -
  have "- x \<le> of_int (- c)" using assms(1) by simp
  moreover have "\<bar>- x\<bar> < 2 ^ 53" using assms(2) by simp
  ultimately have "round_double (- x) \<le> of_int (- c)" by (rule round_double_le_int)
  then show ?thesis by (simp add: round_double_minus)
qed

text \<open>Doubles lie on the grid of the smallest subnormal.\<close>

lemma is_double_grid:
  assumes "is_double x"
  shows "x / pow2 (- 1074) \<in> \<int>"
proof -
  define j where "j = max (bexp x) (- 1022) - 52"
  have "x = of_int (rne (x / quantum x)) * quantum x"
    using assms by (simp add: is_double_def round_double_def)
  then have "x / pow2 (- 1074) = of_int (rne (x / quantum x)) * (quantum x / pow2 (- 1074))"
    by (metis times_divide_eq_right)
  moreover have "quantum x / pow2 (- 1074) = pow2 (j + 1074)"
    using pow2_diff [of j "- 1074"] by (simp add: quantum_pow2 j_def)
  moreover have "pow2 (j + 1074) \<in> \<int>" by (intro pow2_Ints) (simp add: j_def)
  ultimately show ?thesis by simp
qed

lemma round_double_diff_pos:
  assumes "is_double x" and "is_double y" and "x < y"
  shows "0 < round_double (y - x)"
proof -
  have "(y - x) / pow2 (- 1074) \<in> \<int>"
    using is_double_grid [OF assms(1)] is_double_grid [OF assms(2)]
    by (simp add: diff_divide_distrib)
  then obtain m :: int where m: "(y - x) / pow2 (- 1074) = of_int m" by (auto elim: Ints_cases)
  have "0 < (y - x) / pow2 (- 1074)" using assms(3) by simp
  then have "0 < m" unfolding m by simp
  then have "1 \<le> m" by simp
  then have "(1::rat) \<le> of_int m" by simp
  then have "1 \<le> (y - x) / pow2 (- 1074)" unfolding m .
  then have "pow2 (- 1074) \<le> y - x" by (simp add: pos_le_divide_eq)
  then have "round_double (pow2 (- 1074)) \<le> round_double (y - x)" by (rule round_double_mono)
  then have "pow2 (- 1074) \<le> round_double (y - x)" by (simp add: round_double_pow2)
  then show ?thesis using pow2_pos [of "- 1074"] by linarith
qed

text \<open>The result of one rounded operation.\<close>

lemma fl_zero [simp]: "fl 0 = Finite 0"
  by (simp add: fl_def zero_def)

lemma fl_nonneg:
  assumes "0 \<le> x" and "round_double x < 2 ^ 1024"
  shows "fl x = Finite (round_double x)"
proof -
  have "0 \<le> round_double x" using assms(1) by (rule round_double_nonneg)
  then have "\<not> 2 ^ 1024 \<le> \<bar>round_double x\<bar>" using assms(2) by simp
  moreover have "\<not> x < 0" using assms(1) by simp
  ultimately show ?thesis by (simp add: fl_def zero_def Let_def)
qed

lemma fl_Finite:
  assumes "fl x = Finite r" and "r \<noteq> 0"
  shows "r = round_double x" and "\<bar>r\<bar> < 2 ^ 1024"
  using assms by (auto simp: fl_def Let_def zero_def inf_def split: if_splits)

lemma fl_overflow:
  assumes "2 ^ 1024 \<le> x"
  shows "fl x = PosInf"
proof -
  have "pow2 1024 \<le> x" using assms by (simp add: pow2_numeral)
  then have "round_double (pow2 1024) \<le> round_double x" by (rule round_double_mono)
  then have "pow2 1024 \<le> round_double x" by (simp add: round_double_pow2)
  then have "2 ^ 1024 \<le> \<bar>round_double x\<bar>" by (simp add: pow2_numeral)
  moreover have "(0::rat) < 2 ^ 1024" by simp
  then have "\<not> x < 0" using assms by linarith
  ultimately show ?thesis by (simp add: fl_def inf_def Let_def)
qed

lemma isfin_cases: "isfin a \<Longrightarrow> a = Finite (ratval a) \<or> a = NegZero"
  by (cases a) (simp_all add: isfin_def)

lemma js_sub_fin:
  assumes "isfin a" and "isfin b" and "ratval a \<noteq> ratval b"
  shows "js_sub a b = fl (ratval a - ratval b)"
  using assms by (cases a; cases b) (simp_all add: isfin_def js_sub_def js_add_def)

lemma js_sub_ge:
  assumes "b \<le> a"
  shows "js_sub (Finite a) (Finite b) = fl (a - b)"
  using assms by (auto simp: js_sub_def js_add_def zero_def)

lemma js_div_nonneg:
  assumes "0 \<le> p" and "0 < r"
  shows "js_div (Finite p) (Finite r) = fl (p / r)"
  using assms by (auto simp: js_div_def iszero_def zero_def Let_def)

lemma js_mul_nonneg:
  assumes "0 \<le> a" and "0 \<le> b"
  shows "js_mul (Finite a) (Finite b) = fl (a * b)"
  using assms by (auto simp: js_mul_def iszero_def zero_def Let_def)

lemma Math_round_nonneg:
  assumes "0 \<le> d"
  shows "Math_round (Finite d) = Finite (of_int \<lfloor>d + 1 / 2\<rfloor>)"
  using assms by (auto simp: zero_def Let_def)

lemma floor_numeral_divide:
  "\<lfloor>numeral a / numeral b :: rat\<rfloor> = numeral a div numeral b"
  using floor_divide_of_int_eq [of "numeral a" "numeral b", where ?'a = rat] by simp

lemma floor_one_divide:
  "\<lfloor>1 / numeral b :: rat\<rfloor> = 1 div numeral b"
  using floor_divide_of_int_eq [of 1 "numeral b", where ?'a = rat] by simp

lemma ceiling_numeral_divide:
  "\<lceil>numeral a / numeral b :: rat\<rceil> = - ((- numeral a) div numeral b)"
  using ceiling_divide_eq_div [of "numeral a" "numeral b", where ?'a = rat] by simp

lemmas eval_simps =
  fl_def round_double_def quantum_def pow2_def bexp_def rne_def Let_def zero_def inf_def
  js_add_def js_sub_def js_mul_def js_div_def js_le_def js_ge_def js_lt_def js_eq_def iszero_def
  compute_bitlen floor_numeral_divide floor_one_divide ceiling_numeral_divide
  power_int_minus_divide

section \<open>Arithmetic of the scores\<close>

lemma is_double_zero [simp]: "is_double 0"
  by (simp add: is_double_def)

lemma is_number_ratval: "isfin a \<Longrightarrow> is_number a \<Longrightarrow> is_double (ratval a)"
  by (cases a) (simp_all add: isfin_def)

lemma fl_exact:
  assumes "round_double x = x" and "\<bar>x\<bar> < 2 ^ 1024"
  shows "fl x = Finite x"
  using assms by (simp add: fl_def zero_def Let_def)

lemma fl_pos_cases:
  assumes "0 < round_double x"
  shows "fl x = PosInf \<or> fl x = Finite (round_double x)"
proof -
  have "\<not> x < 0" using assms round_double_nonpos [of x] by (cases "x \<le> 0") simp_all
  then show ?thesis using assms by (simp add: fl_def inf_def Let_def)
qed

lemma js_sub_isfin: "isfin (js_sub a b) \<Longrightarrow> isfin a \<and> isfin b"
  by (cases a; cases b) (auto simp: js_sub_def js_add_def isfin_def split: if_splits)

lemma js_sub_not_fin: "\<not> isfin a \<or> \<not> isfin b \<Longrightarrow> \<not> iszero (js_sub a b)"
  by (cases a; cases b) (auto simp: js_sub_def js_add_def isfin_def iszero_def split: if_splits)

lemma between_fin:
  assumes "\<not> isnan v" and "isfin g" and "isfin p" and "\<not> js_le v g" and "\<not> js_ge v p"
  shows "isfin v" and "ratval g < ratval v" and "ratval v < ratval p"
  using assms by (cases v; simp add: js_le_def js_ge_def isfin_def)+

lemma interpolate_result:
  assumes "0 \<le> p" and "p \<le> r" and "0 < r"
  shows "Math_round (js_sub (Finite 100) (js_mul (js_div (Finite p) (Finite r)) (Finite 100)))
           = Finite (of_int (interpolate p r))"
    and "0 \<le> interpolate p r" and "interpolate p r \<le> 100"
proof -
  define q where "q = round_double (p / r)"
  define m where "m = round_double (q * 100)"
  define d where "d = round_double (100 - m)"
  have x0: "0 \<le> p / r" using assms by simp
  have x1: "p / r \<le> of_int 1" using assms by simp
  have xa: "\<bar>p / r\<bar> < 2 ^ 53" using x0 x1 by simp
  have q0: "0 \<le> q" unfolding q_def using x0 by (rule round_double_nonneg)
  have q1: "q \<le> 1" using round_double_le_int [OF x1 xa] by (simp add: q_def)
  have "js_div (Finite p) (Finite r) = fl (p / r)" using assms by (simp add: js_div_nonneg)
  also have "\<dots> = Finite q" unfolding q_def using x0 q1 [unfolded q_def]
    by (intro fl_nonneg) simp_all
  finally have dv: "js_div (Finite p) (Finite r) = Finite q" .
  have y0: "0 \<le> q * 100" using q0 by simp
  have y1: "q * 100 \<le> of_int 100" using q1 by simp
  have ya: "\<bar>q * 100\<bar> < 2 ^ 53" using y0 y1 by simp
  have m0: "0 \<le> m" unfolding m_def using y0 by (rule round_double_nonneg)
  have m1: "m \<le> 100" using round_double_le_int [OF y1 ya] by (simp add: m_def)
  have "js_mul (Finite q) (Finite 100) = fl (q * 100)" using q0 by (simp add: js_mul_nonneg)
  also have "\<dots> = Finite m" unfolding m_def using y0 m1 [unfolded m_def]
    by (intro fl_nonneg) simp_all
  finally have ml: "js_mul (Finite q) (Finite 100) = Finite m" .
  have z0: "0 \<le> 100 - m" using m1 by simp
  have z1: "100 - m \<le> of_int 100" using m0 by simp
  have za: "\<bar>100 - m\<bar> < 2 ^ 53" using z0 z1 by simp
  have d0: "0 \<le> d" unfolding d_def using z0 by (rule round_double_nonneg)
  have d1: "d \<le> 100" using round_double_le_int [OF z1 za] by (simp add: d_def)
  have "js_sub (Finite 100) (Finite m) = fl (100 - m)" using m1 by (rule js_sub_ge)
  also have "\<dots> = Finite d" unfolding d_def using z0 d1 [unfolded d_def]
    by (intro fl_nonneg) simp_all
  finally have sb: "js_sub (Finite 100) (Finite m) = Finite d" .
  have i: "interpolate p r = \<lfloor>d + 1 / 2\<rfloor>" by (simp add: interpolate_def d_def m_def q_def)
  have "Math_round (Finite d) = Finite (of_int \<lfloor>d + 1 / 2\<rfloor>)" using d0 by (rule Math_round_nonneg)
  then show "Math_round (js_sub (Finite 100) (js_mul (js_div (Finite p) (Finite r)) (Finite 100)))
           = Finite (of_int (interpolate p r))"
    by (simp only: dv ml sb i)
  have "0 \<le> d + 1 / 2" using d0 by simp
  then show "0 \<le> interpolate p r" unfolding i by (simp only: zero_le_floor)
  have "d + 1 / 2 < 101" using d1 by simp
  then have "\<lfloor>d + 1 / 2\<rfloor> < 101" by (simp only: floor_less_iff of_int_numeral)
  then show "interpolate p r \<le> 100" unfolding i by linarith
qed

lemma interpolate_mono:
  assumes "0 < r" and "p1 \<le> p2"
  shows "interpolate p2 r \<le> interpolate p1 r"
proof -
  have "p1 / r \<le> p2 / r" using assms by (simp add: divide_right_mono)
  then have "round_double (p1 / r) \<le> round_double (p2 / r)" by (rule round_double_mono)
  then have "round_double (p1 / r) * 100 \<le> round_double (p2 / r) * 100" by simp
  then have "round_double (round_double (p1 / r) * 100) \<le> round_double (round_double (p2 / r) * 100)"
    by (rule round_double_mono)
  then have "100 - round_double (round_double (p2 / r) * 100)
           \<le> 100 - round_double (round_double (p1 / r) * 100)" by simp
  then have "round_double (100 - round_double (round_double (p2 / r) * 100))
           \<le> round_double (100 - round_double (round_double (p1 / r) * 100))"
    by (rule round_double_mono)
  then have "round_double (100 - round_double (round_double (p2 / r) * 100)) + 1 / 2
           \<le> round_double (100 - round_double (round_double (p1 / r) * 100)) + 1 / 2" by simp
  then show ?thesis unfolding interpolate_def by (rule floor_mono)
qed

text \<open>
  The interpolation branch, for thresholds that are doubles with a finite difference: the
  value lies strictly between them, the range is positive and the position is at most the
  range.
\<close>

lemma calculateMetricScore_between:
  assumes "\<not> isnan v" and "is_number (good t)" and "is_number (poor t)"
    and "isfin (js_sub (poor t) (good t))"
    and "\<not> js_le v (good t)" and "\<not> js_ge v (poor t)"
  shows "\<exists>r. js_sub (poor t) (good t) = Finite r \<and> 0 < r
           \<and> js_sub v (good t) = Finite (round_double (ratval v - ratval (good t)))
           \<and> 0 \<le> round_double (ratval v - ratval (good t))
           \<and> round_double (ratval v - ratval (good t)) \<le> r
           \<and> isfin v \<and> ratval (good t) < ratval v \<and> ratval v < ratval (poor t)"
proof -
  define g where "g = ratval (good t)"
  define p where "p = ratval (poor t)"
  define x where "x = ratval v"
  have fg: "isfin (good t)" and fp: "isfin (poor t)" using js_sub_isfin [OF assms(4)] by simp_all
  have fv: "isfin v" and gx: "g < x" and xp: "x < p"
    unfolding g_def p_def x_def using between_fin [OF assms(1) fg fp assms(5) assms(6)] by simp_all
  have dg: "is_double g" unfolding g_def using fg assms(2) by (rule is_number_ratval)
  have dp: "is_double p" unfolding p_def using fp assms(3) by (rule is_number_ratval)
  have gp: "g < p" using gx xp by simp
  have rpos: "0 < round_double (p - g)" using dg dp gp by (rule round_double_diff_pos)
  have rng: "js_sub (poor t) (good t) = fl (p - g)"
    unfolding g_def p_def using fp fg gp [unfolded g_def p_def] by (intro js_sub_fin) simp_all
  then have "isfin (fl (p - g))" using assms(4) by simp
  then have "fl (p - g) \<noteq> PosInf" by (auto simp: isfin_def)
  then have r: "fl (p - g) = Finite (round_double (p - g))" using fl_pos_cases [OF rpos] by simp
  then have rb: "round_double (p - g) < 2 ^ 1024" using rpos fl_Finite(2) [OF r] by simp
  have p0: "0 \<le> round_double (x - g)" using gx by (intro round_double_nonneg) simp
  have "x - g \<le> p - g" using xp by simp
  then have p1: "round_double (x - g) \<le> round_double (p - g)" by (rule round_double_mono)
  have "js_sub v (good t) = fl (x - g)"
    unfolding g_def x_def using fv fg gx [unfolded g_def x_def] by (intro js_sub_fin) simp_all
  also have "\<dots> = Finite (round_double (x - g))" using gx p1 rb by (intro fl_nonneg) simp_all
  finally have pos: "js_sub v (good t) = Finite (round_double (x - g))" .
  show ?thesis
    using rng r rpos pos p0 p1 fv gx xp unfolding g_def p_def x_def
    by (intro exI [of _ "round_double (ratval (poor t) - ratval (good t))"]) simp
qed

lemma calculateMetricScore_interpolate:
  assumes "\<not> isnan v" and "is_number (good t)" and "is_number (poor t)"
    and "isfin (js_sub (poor t) (good t))"
    and "\<not> js_le v (good t)" and "\<not> js_ge v (poor t)"
  shows "calculateMetricScore v t =
           Finite (of_int (interpolate (round_double (ratval v - ratval (good t)))
                                       (ratval (js_sub (poor t) (good t)))))"
    and "0 \<le> interpolate (round_double (ratval v - ratval (good t)))
                          (ratval (js_sub (poor t) (good t)))"
    and "interpolate (round_double (ratval v - ratval (good t)))
                     (ratval (js_sub (poor t) (good t))) \<le> 100"
proof -
  from calculateMetricScore_between [OF assms]
  obtain r where r: "js_sub (poor t) (good t) = Finite r" "0 < r"
      "js_sub v (good t) = Finite (round_double (ratval v - ratval (good t)))"
      "0 \<le> round_double (ratval v - ratval (good t))"
      "round_double (ratval v - ratval (good t)) \<le> r"
    by blast
  note i = interpolate_result [OF r(4) r(5) r(2)]
  show "calculateMetricScore v t =
           Finite (of_int (interpolate (round_double (ratval v - ratval (good t)))
                                       (ratval (js_sub (poor t) (good t)))))"
    using assms(5,6) i(1) by (simp add: calculateMetricScore_def Let_def r(1) r(3))
  show "0 \<le> interpolate (round_double (ratval v - ratval (good t)))
                          (ratval (js_sub (poor t) (good t)))"
    using i(2) by (simp add: r(1))
  show "interpolate (round_double (ratval v - ratval (good t)))
                     (ratval (js_sub (poor t) (good t))) \<le> 100"
    using i(3) by (simp add: r(1))
qed

lemma calculateMetricScore_range:
  assumes "\<not> isnan v" and "is_number (good t)" and "is_number (poor t)"
    and "isfin (js_sub (poor t) (good t))"
  shows "\<exists>n::int. calculateMetricScore v t = Finite (of_int n) \<and> 0 \<le> n \<and> n \<le> 100"
proof (cases "js_le v (good t)")
  case True
  then have "calculateMetricScore v t = Finite (of_int 100)" by (simp add: calculateMetricScore_def)
  then show ?thesis by (intro exI [of _ 100]) simp
next
  case False
  note ng = this
  show ?thesis
  proof (cases "js_ge v (poor t)")
    case True
    then have "calculateMetricScore v t = Finite (of_int 0)"
      using ng by (simp add: calculateMetricScore_def)
    then show ?thesis by (intro exI [of _ 0]) simp
  next
    case False
    from calculateMetricScore_interpolate [OF assms ng False] show ?thesis by blast
  qed
qed

lemma calculateMetricScore_nonzero_range:
  assumes "\<not> isnan v" and "is_number (good t)" and "is_number (poor t)"
    and "\<not> js_le v (good t)" and "\<not> js_ge v (poor t)"
  shows "\<not> iszero (js_sub (poor t) (good t))"
proof (cases "isfin (good t) \<and> isfin (poor t)")
  case False
  then show ?thesis by (intro js_sub_not_fin) auto
next
  case True
  then have fg: "isfin (good t)" and fp: "isfin (poor t)" by simp_all
  note b = between_fin [OF assms(1) fg fp assms(4) assms(5)]
  have gp: "ratval (good t) < ratval (poor t)" using b(2) b(3) by simp
  have "0 < round_double (ratval (poor t) - ratval (good t))"
    using is_number_ratval [OF fg assms(2)] is_number_ratval [OF fp assms(3)] gp
    by (rule round_double_diff_pos)
  from fl_pos_cases [OF this] this
  have "\<not> iszero (fl (ratval (poor t) - ratval (good t)))" by (auto simp: iszero_def)
  moreover have "js_sub (poor t) (good t) = fl (ratval (poor t) - ratval (good t))"
    using fp fg gp by (intro js_sub_fin) simp_all
  ultimately show ?thesis by simp
qed

lemma calculateMetricScore_step:
  assumes "\<not> isnan v" and "js_le (poor t) (good t)"
  shows "calculateMetricScore v t = (if js_le v (good t) then Finite 100 else Finite 0)"
    and "js_le v (good t) \<or> js_ge v (poor t)"
proof -
  show c: "js_le v (good t) \<or> js_ge v (poor t)"
    using assms by (cases v; cases "good t"; cases "poor t") (auto simp: js_le_def js_ge_def)
  then show "calculateMetricScore v t = (if js_le v (good t) then Finite 100 else Finite 0)"
    by (auto simp: calculateMetricScore_def)
qed

lemma js_le_trans: "js_le a b \<Longrightarrow> js_le b c \<Longrightarrow> js_le a c"
  by (cases a; cases b; cases c) (auto simp: js_le_def)

lemma js_le_not_nan: "js_le a b \<Longrightarrow> \<not> isnan a \<and> \<not> isnan b"
  by (simp add: js_le_def)

lemma js_le_fin: "js_le a b \<Longrightarrow> isfin a \<Longrightarrow> isfin b \<Longrightarrow> ratval a \<le> ratval b"
  by (cases a; cases b) (auto simp: js_le_def isfin_def)

lemma js_ge_of_int: "js_ge (Finite (of_int a)) (Finite (of_int b)) \<longleftrightarrow> b \<le> a"
  by (simp add: js_ge_def js_le_def)

lemma calculateMetricScore_mono:
  assumes "is_number (good t)" and "is_number (poor t)"
    and "isfin (js_sub (poor t) (good t))" and "js_le v1 v2"
  shows "js_ge (calculateMetricScore v1 t) (calculateMetricScore v2 t)"
proof -
  have nn: "\<not> isnan v1" "\<not> isnan v2" using js_le_not_nan [OF assms(4)] by simp_all
  obtain n1 :: int where n1: "calculateMetricScore v1 t = Finite (of_int n1)" "0 \<le> n1" "n1 \<le> 100"
    using calculateMetricScore_range [OF nn(1) assms(1-3)] by blast
  obtain n2 :: int where n2: "calculateMetricScore v2 t = Finite (of_int n2)" "0 \<le> n2" "n2 \<le> 100"
    using calculateMetricScore_range [OF nn(2) assms(1-3)] by blast
  consider "js_le v1 (good t)" | "\<not> js_le v1 (good t)" "js_ge v2 (poor t)"
    | "\<not> js_le v1 (good t)" "\<not> js_ge v2 (poor t)" by blast
  then have "n2 \<le> n1"
  proof cases
    case 1
    then have "calculateMetricScore v1 t = Finite (of_int 100)"
      by (simp add: calculateMetricScore_def)
    then have "n1 = 100" unfolding n1(1) by (simp only: number.inject of_int_eq_iff)
    then show ?thesis using n2(3) by simp
  next
    case 2
    have "\<not> js_le v2 (good t)" using 2(1) js_le_trans [OF assms(4)] by blast
    then have "calculateMetricScore v2 t = Finite (of_int 0)"
      using 2(2) by (simp add: calculateMetricScore_def)
    then have "n2 = 0" unfolding n2(1) by (simp only: number.inject of_int_eq_iff)
    then show ?thesis using n1(2) by simp
  next
    case 3
    have a: "\<not> js_le v2 (good t)" using 3(1) js_le_trans [OF assms(4)] by blast
    have b: "\<not> js_ge v1 (poor t)"
      using 3(2) js_le_trans [OF _ assms(4)] unfolding js_ge_def by blast
    note i1 = calculateMetricScore_interpolate [OF nn(1) assms(1-3) 3(1) b]
    note i2 = calculateMetricScore_interpolate [OF nn(2) assms(1-3) a 3(2)]
    note b1 = calculateMetricScore_between [OF nn(1) assms(1-3) 3(1) b]
    note b2 = calculateMetricScore_between [OF nn(2) assms(1-3) a 3(2)]
    from b1 obtain r where r: "js_sub (poor t) (good t) = Finite r" "0 < r" by blast
    have f: "isfin v1" "isfin v2" using b1 b2 by blast+
    have "ratval v1 \<le> ratval v2" using assms(4) f by (rule js_le_fin)
    then have "ratval v1 - ratval (good t) \<le> ratval v2 - ratval (good t)" by simp
    then have "round_double (ratval v1 - ratval (good t))
             \<le> round_double (ratval v2 - ratval (good t))" by (rule round_double_mono)
    then have "interpolate (round_double (ratval v2 - ratval (good t))) r
             \<le> interpolate (round_double (ratval v1 - ratval (good t))) r"
      using r(2) by (intro interpolate_mono)
    moreover have "n1 = interpolate (round_double (ratval v1 - ratval (good t))) r"
      using i1(1) unfolding n1(1) r(1) by simp
    moreover have "n2 = interpolate (round_double (ratval v2 - ratval (good t))) r"
      using i2(1) unfolding n2(1) r(1) by simp
    ultimately show ?thesis by simp
  qed
  then show ?thesis unfolding n1(1) n2(1) by (simp only: js_ge_of_int)
qed

lemma round_double_half [simp]: "round_double (1 / 2) = 1 / 2"
  using round_double_half_int [of 1] by simp

lemma round_double_numeral:
  "(numeral n :: rat) < 2 ^ 53 \<Longrightarrow> round_double (numeral n) = numeral n"
  using round_double_int [of "numeral n"] by simp

lemma fl_numeral:
  "(numeral n :: rat) < 2 ^ 53 \<Longrightarrow> fl (numeral n) = Finite (numeral n)"
proof -
  assume a: "(numeral n :: rat) < 2 ^ 53"
  have "(2::rat) ^ 53 < 2 ^ 1024" by (rule power_strict_increasing) simp_all
  with a have "(numeral n :: rat) < 2 ^ 1024" by (rule less_trans)
  then have "\<bar>numeral n :: rat\<bar> < 2 ^ 1024" by (simp only: abs_numeral)
  with round_double_numeral [OF a] show ?thesis by (rule fl_exact)
qed

lemma is_double_numeral:
  "(numeral n :: rat) < 2 ^ 53 \<Longrightarrow> is_double (numeral n)"
proof -
  assume a: "(numeral n :: rat) < 2 ^ 53"
  have "(2::rat) ^ 53 < 2 ^ 1024" by (rule power_strict_increasing) simp_all
  with a have "(numeral n :: rat) < 2 ^ 1024" by (rule less_trans)
  then have "\<bar>numeral n :: rat\<bar> < 2 ^ 1024" by (simp only: abs_numeral)
  with round_double_numeral [OF a] show ?thesis by (simp add: is_double_def)
qed

lemma calculateMetricScore_midpoint:
  assumes g: "good t = Finite (of_int a)" and p: "poor t = Finite (of_int b)"
    and ab: "a < b" and ba: "\<bar>a\<bar> < 2 ^ 50" and bb: "\<bar>b\<bar> < 2 ^ 50"
  shows "calculateMetricScore
           (js_add (good t) (js_mul (Finite (1 / 2)) (js_sub (poor t) (good t)))) t = Finite 50"
proof -
  define r :: rat where "r = of_int (b - a)"
  define h :: rat where "h = of_int (b - a) / 2"
  define x :: rat where "x = of_int (a + b) / 2"
  have big: "(2::rat) ^ 53 < 2 ^ 1024" "(2::rat) ^ 52 < 2 ^ 1024"
    by (rule power_strict_increasing; simp)+
  have ir: "\<bar>b - a\<bar> < 2 ^ 52" and ix: "\<bar>a + b\<bar> < 2 ^ 52" using ba bb by simp_all
  have "\<bar>of_int (b - a) :: rat\<bar> < of_int (2 ^ 52)"
    using ir by (simp only: of_int_abs [symmetric] of_int_less_iff)
  then have ar: "\<bar>r\<bar> < 2 ^ 52" by (simp add: r_def)
  have "\<bar>of_int (a + b) :: rat\<bar> < of_int (2 ^ 52)"
    using ix by (simp only: of_int_abs [symmetric] of_int_less_iff)
  then have ax2: "\<bar>of_int (a + b) :: rat\<bar> < 2 ^ 52" by simp
  have r0: "0 < r" using ab by (simp add: r_def)
  have h0: "0 < h" using ab by (simp add: h_def)
  have hr: "h = r / 2" by (simp add: h_def r_def)
  have flr: "fl r = Finite r"
  proof (rule fl_exact)
    show "round_double r = r" unfolding r_def using ar by (intro round_double_int) (simp add: r_def)
    show "\<bar>r\<bar> < 2 ^ 1024" using ar big by simp
  qed
  have flh: "fl h = Finite h"
  proof (rule fl_exact)
    show "round_double h = h" unfolding h_def using ar by (intro round_double_half_int) (simp add: r_def)
    show "\<bar>h\<bar> < 2 ^ 1024" using ar big by (simp add: hr)
  qed
  have flx: "fl x = Finite x"
  proof (rule fl_exact)
    show "round_double x = x" unfolding x_def using ax2 by (intro round_double_half_int) simp
    show "\<bar>x\<bar> < 2 ^ 1024" using ax2 big by (simp add: x_def)
  qed
  have rng: "js_sub (poor t) (good t) = Finite r"
    using ab js_sub_ge [of "of_int a" "of_int b"] flr by (simp add: g p r_def)
  have "js_mul (Finite (1 / 2)) (Finite r) = fl (1 / 2 * r)" using r0 by (intro js_mul_nonneg) simp_all
  then have half: "js_mul (Finite (1 / 2)) (Finite r) = Finite h" using flh by (simp add: hr)
  have xh: "of_int a + h = x" by (simp add: h_def x_def field_simps)
  have mid: "js_add (Finite (of_int a)) (Finite h) = Finite x"
    using h0 flx by (simp add: js_add_def zero_def xh)
  have ax: "of_int a < x" using ab by (simp add: x_def field_simps)
  have xb: "x < of_int b" using ab by (simp add: x_def field_simps)
  have "js_sub (Finite x) (Finite (of_int a)) = fl (x - of_int a)" using ax by (intro js_sub_ge) simp
  moreover have "x - of_int a = h" using xh by simp
  ultimately have pos: "js_sub (Finite x) (Finite (of_int a)) = Finite h" using flh by simp
  have "js_div (Finite h) (Finite r) = fl (h / r)" using h0 r0 by (intro js_div_nonneg) simp_all
  moreover have "h / r = 1 / 2" using r0 by (simp add: hr)
  moreover have "fl (1 / 2) = Finite (1 / 2)" by (rule fl_exact) simp_all
  ultimately have dv: "js_div (Finite h) (Finite r) = Finite (1 / 2)" by simp
  have "js_mul (Finite (1 / 2)) (Finite 100) = fl (1 / 2 * 100)" by (intro js_mul_nonneg) simp_all
  then have ml: "js_mul (Finite (1 / 2)) (Finite 100) = Finite 50" by (simp add: fl_numeral)
  have "js_sub (Finite 100) (Finite 50) = fl (100 - 50)" by (intro js_sub_ge) simp
  then have sb: "js_sub (Finite 100) (Finite 50) = Finite 50" by (simp add: fl_numeral)
  have rd: "Math_round (Finite 50) = Finite 50" by (simp add: floor_numeral_divide)
  have ng: "\<not> js_le (Finite x) (Finite (of_int a))" using ax by (simp add: js_le_def)
  have np: "\<not> js_ge (Finite x) (Finite (of_int b))" using xb by (simp add: js_ge_def js_le_def)
  have "calculateMetricScore (Finite x) t = Finite 50"
    using ng np rng by (simp add: calculateMetricScore_def g p pos dv ml sb floor_numeral_divide)
  moreover have "js_sub (poor t) (Finite (of_int a)) = Finite r" using rng by (simp add: g)
  ultimately show ?thesis by (simp add: half g mid)
qed

lemma calculatePerformanceScore_eq:
  "calculatePerformanceScore m t w =
     \<lparr>overall = Math_round
        (js_add (js_add
           (js_mul (calculateMetricScore (timeToFirstFrameMs m) (ttff t)) (ttff w))
           (js_mul (calculateMetricScore
              (case timeToInteractiveMs m of Some v \<Rightarrow> v | None \<Rightarrow> timeToFirstFrameMs m) (tti t))
              (tti w)))
           (js_mul (calculateMetricScore
              (case firstInputDelay m of Some d \<Rightarrow> firstInputDelayMs d | None \<Rightarrow> Finite 0) (fid t))
              (fid w))),
      breakdown =
        \<lparr>ttff = calculateMetricScore (timeToFirstFrameMs m) (ttff t),
         tti = calculateMetricScore
           (case timeToInteractiveMs m of Some v \<Rightarrow> v | None \<Rightarrow> timeToFirstFrameMs m) (tti t),
         fid = calculateMetricScore
           (case firstInputDelay m of Some d \<Rightarrow> firstInputDelayMs d | None \<Rightarrow> Finite 0) (fid t)\<rparr>,
      category = getScoreCategory (Math_round
        (js_add (js_add
           (js_mul (calculateMetricScore (timeToFirstFrameMs m) (ttff t)) (ttff w))
           (js_mul (calculateMetricScore
              (case timeToInteractiveMs m of Some v \<Rightarrow> v | None \<Rightarrow> timeToFirstFrameMs m) (tti t))
              (tti w)))
           (js_mul (calculateMetricScore
              (case firstInputDelay m of Some d \<Rightarrow> firstInputDelayMs d | None \<Rightarrow> Finite 0) (fid t))
              (fid w))))\<rparr>"
  by (simp add: calculatePerformanceScore_def Let_def)

lemma DEFAULT_WEIGHTS_value:
  "DEFAULT_WEIGHTS =
     \<lparr>ttff = Finite (1 / 4),
      tti = Finite (8106479329266893 / 18014398509481984),
      fid = Finite (5404319552844595 / 18014398509481984)\<rparr>"
  by (simp add: DEFAULT_WEIGHTS_def eval_simps)

lemma js_lt_not_both: "js_lt g p \<Longrightarrow> js_ge v p \<Longrightarrow> \<not> js_le v g"
  by (cases g; cases p; cases v) (auto simp: js_lt_def js_le_def js_ge_def)

lemma js_eq_le: "js_eq g p \<Longrightarrow> js_le p g"
  by (simp add: js_eq_def)

lemma js_lt_le: "js_lt p g \<Longrightarrow> js_le p g"
  by (cases g; cases p) (auto simp: js_lt_def js_le_def)

text \<open>Three doubles near the top of the range.\<close>

lemma is_number_big:
  "is_number (Finite (2 ^ 1023))" "is_number (Finite (- (2 ^ 1023)))"
  "is_number (Finite (3 * 2 ^ 1022))"
proof -
  have "round_double (pow2 1023) = pow2 1023" by (rule round_double_pow2) simp
  then have a: "round_double (2 ^ 1023) = 2 ^ 1023" by (simp only: pow2_numeral)
  have b: "\<bar>(2::rat) ^ 1023\<bar> < 2 ^ 1024" by simp
  show "is_number (Finite (2 ^ 1023))" using a b by (simp only: is_number.simps is_double_def)
  have "round_double (- (2 ^ 1023)) = - (2 ^ 1023)" using a by (simp only: round_double_minus)
  moreover have "\<bar>- ((2::rat) ^ 1023)\<bar> < 2 ^ 1024" by simp
  ultimately show "is_number (Finite (- (2 ^ 1023)))"
    by (simp only: is_number.simps is_double_def)
  have nz: "(3 * 2 ^ 1022 :: rat) \<noteq> 0" by simp
  have "\<bar>3 * 2 ^ 1022 :: rat\<bar> < pow2 (1023 + 1)" by (simp add: pow2_numeral)
  then have "bexp (3 * 2 ^ 1022) \<le> 1023" by (rule bexp_le [OF nz])
  then have "max (bexp (3 * 2 ^ 1022)) (- 1022) - 52 \<le> 1022" by simp
  moreover have "(3 * 2 ^ 1022 :: rat) / pow2 1022 \<in> \<int>" by (simp add: pow2_numeral)
  ultimately have "round_double (3 * 2 ^ 1022) = 3 * 2 ^ 1022"
    by (rule round_double_on_grid [rotated])
  moreover have "\<bar>3 * 2 ^ 1022 :: rat\<bar> < 2 ^ 1024" by simp
  ultimately show "is_number (Finite (3 * 2 ^ 1022))"
    by (simp only: is_number.simps is_double_def)
qed

section \<open>The score of one metric\<close>

text \<open>
  C1. For every value and every pair of thresholds with \<open>good < poor\<close>,
  \<open>calculateMetricScore\<close> returns 100 when the value is at most \<open>good\<close>, 0 when it is
  at least \<open>poor\<close>, and otherwise \<open>round(100 - ((value - good) / (poor - good)) * 100)\<close>,
  each operation of the formula being the operation on doubles.
\<close>

theorem calculateMetricScore_spec:
  assumes "js_lt (good t) (poor t)"
  shows "(js_le v (good t) \<longrightarrow> calculateMetricScore v t = Finite 100)
       \<and> (js_ge v (poor t) \<longrightarrow> calculateMetricScore v t = Finite 0)
       \<and> (\<not> js_le v (good t) \<and> \<not> js_ge v (poor t) \<longrightarrow>
            calculateMetricScore v t =
              Math_round (js_sub (Finite 100)
                (js_mul (js_div (js_sub v (good t)) (js_sub (poor t) (good t))) (Finite 100))))"
  using js_lt_not_both [OF assms, of v] by (auto simp: calculateMetricScore_def Let_def)

theorem calculateMetricScore_spec_witness:
  "js_lt (good \<lparr>good = Finite 500, poor = Finite 1500\<rparr>)
         (poor \<lparr>good = Finite 500, poor = Finite 1500\<rparr>)
   \<and> calculateMetricScore (Finite 100) \<lparr>good = Finite 500, poor = Finite 1500\<rparr> = Finite 100
   \<and> calculateMetricScore (Finite 1900) \<lparr>good = Finite 500, poor = Finite 1500\<rparr> = Finite 0
   \<and> calculateMetricScore (Finite 750) \<lparr>good = Finite 500, poor = Finite 1500\<rparr> = Finite 75
   \<and> calculateMetricScore (Finite 1045) \<lparr>good = Finite 500, poor = Finite 1500\<rparr> = Finite 45"
proof -
  have h: "js_lt (good \<lparr>good = Finite 500, poor = Finite 1500\<rparr>)
                 (poor \<lparr>good = Finite 500, poor = Finite 1500\<rparr>)"
    by (simp add: js_lt_def)
  have a: "Math_round (js_sub (Finite 100)
             (js_mul (js_div (js_sub (Finite 750) (Finite 500)) (js_sub (Finite 1500) (Finite 500)))
                (Finite 100))) = Finite 75"
    by (simp add: eval_simps)
  have b: "Math_round (js_sub (Finite 100)
             (js_mul (js_div (js_sub (Finite 1045) (Finite 500)) (js_sub (Finite 1500) (Finite 500)))
                (Finite 100))) = Finite 45"
    by (simp add: eval_simps)
  show ?thesis
    using calculateMetricScore_spec [OF h, of "Finite 100"]
          calculateMetricScore_spec [OF h, of "Finite 1900"]
          calculateMetricScore_spec [OF h, of "Finite 750"]
          calculateMetricScore_spec [OF h, of "Finite 1045"]
    by (simp add: a b js_le_def js_ge_def js_lt_def)
qed

text \<open>
  The formula is the one the code evaluates, in doubles. In exact arithmetic it gives 46
  for the value 1045 between 500 and 1500, where the code gives 45: the quotient 0.545 is
  not a double, and its product with 100 is the double next above 54.5.
\<close>

lemma exact_interpolation_differs:
  "\<lfloor>100 - ((1045 - 500) / (1500 - 500)) * 100 + 1 / 2 :: rat\<rfloor> = 46
   \<and> js_mul (js_div (Finite 545) (Finite 1000)) (Finite 100)
       = Finite (7670193115365377 / 140737488355328)
   \<and> (109 / 2 :: rat) < 7670193115365377 / 140737488355328"
  by (simp add: eval_simps)

text \<open>
  C4, as amended. For a value that is not NaN, negative values included, and thresholds
  that are doubles: on the path that divides, the divisor is not zero; if the difference
  \<open>poor - good\<close> is finite, the result is an integer from 0 to 100; with \<open>good = poor\<close>
  and with \<open>poor < good\<close> no division is reached and the function is the step function,
  100 up to \<open>good\<close> and 0 above.
\<close>

theorem calculateMetricScore_total:
  assumes "\<not> isnan v" and "is_number (good t)" and "is_number (poor t)"
  shows "(\<not> js_le v (good t) \<and> \<not> js_ge v (poor t) \<longrightarrow> \<not> iszero (js_sub (poor t) (good t)))
       \<and> (isfin (js_sub (poor t) (good t)) \<longrightarrow>
            (\<exists>n::int. calculateMetricScore v t = Finite (of_int n) \<and> 0 \<le> n \<and> n \<le> 100))
       \<and> (js_eq (good t) (poor t) \<longrightarrow>
            (js_le v (good t) \<or> js_ge v (poor t))
            \<and> calculateMetricScore v t = (if js_le v (good t) then Finite 100 else Finite 0))
       \<and> (js_lt (poor t) (good t) \<longrightarrow>
            (js_le v (good t) \<or> js_ge v (poor t))
            \<and> calculateMetricScore v t = (if js_le v (good t) then Finite 100 else Finite 0))"
proof (intro conjI impI)
  assume "\<not> js_le v (good t) \<and> \<not> js_ge v (poor t)"
  then show "\<not> iszero (js_sub (poor t) (good t))"
    using calculateMetricScore_nonzero_range [OF assms] by simp
next
  assume "isfin (js_sub (poor t) (good t))"
  with assms show "\<exists>n::int. calculateMetricScore v t = Finite (of_int n) \<and> 0 \<le> n \<and> n \<le> 100"
    by (rule calculateMetricScore_range)
next
  assume "js_eq (good t) (poor t)"
  then have l: "js_le (poor t) (good t)" by (rule js_eq_le)
  show "js_le v (good t) \<or> js_ge v (poor t)" using assms(1) l by (rule calculateMetricScore_step)
  show "calculateMetricScore v t = (if js_le v (good t) then Finite 100 else Finite 0)"
    using assms(1) l by (rule calculateMetricScore_step)
next
  assume "js_lt (poor t) (good t)"
  then have l: "js_le (poor t) (good t)" by (rule js_lt_le)
  show "js_le v (good t) \<or> js_ge v (poor t)" using assms(1) l by (rule calculateMetricScore_step)
  show "calculateMetricScore v t = (if js_le v (good t) then Finite 100 else Finite 0)"
    using assms(1) l by (rule calculateMetricScore_step)
qed

theorem calculateMetricScore_total_witness:
  "\<not> isnan (Finite 150) \<and> \<not> isnan (Finite (- 5)) \<and> \<not> isnan (Finite 1045)
   \<and> is_number (Finite 100) \<and> is_number (Finite 500) \<and> is_number (Finite 1500)
   \<and> js_eq (Finite 100) (Finite 100) \<and> js_lt (Finite 100) (Finite 500)
   \<and> calculateMetricScore (Finite 150) \<lparr>good = Finite 100, poor = Finite 100\<rparr> = Finite 0
   \<and> calculateMetricScore (Finite (- 5)) \<lparr>good = Finite 100, poor = Finite 100\<rparr> = Finite 100
   \<and> calculateMetricScore (Finite 150) \<lparr>good = Finite 500, poor = Finite 100\<rparr> = Finite 100
   \<and> \<not> js_le (Finite 1045) (Finite 500) \<and> \<not> js_ge (Finite 1045) (Finite 1500)
   \<and> js_sub (Finite 1500) (Finite 500) = Finite 1000
   \<and> \<not> iszero (js_sub (Finite 1500) (Finite 500))
   \<and> (\<exists>n::int. calculateMetricScore (Finite 1045) \<lparr>good = Finite 500, poor = Finite 1500\<rparr>
                  = Finite (of_int n) \<and> 0 \<le> n \<and> n \<le> 100)"
proof -
  have n: "is_number (Finite 100)" "is_number (Finite 500)" "is_number (Finite 1500)"
    by (simp_all add: is_double_numeral)
  have "js_sub (Finite 1500) (Finite 500) = fl (1500 - 500)" by (rule js_sub_ge) simp
  then have r: "js_sub (Finite 1500) (Finite 500) = Finite 1000" by (simp add: fl_numeral)
  show ?thesis
    using calculateMetricScore_total [of "Finite 150" "\<lparr>good = Finite 100, poor = Finite 100\<rparr>"]
          calculateMetricScore_total [of "Finite (- 5)" "\<lparr>good = Finite 100, poor = Finite 100\<rparr>"]
          calculateMetricScore_total [of "Finite 150" "\<lparr>good = Finite 500, poor = Finite 100\<rparr>"]
          calculateMetricScore_total [of "Finite 1045" "\<lparr>good = Finite 500, poor = Finite 1500\<rparr>"]
    by (simp add: is_double_numeral r isfin_def js_le_def js_ge_def js_lt_def js_eq_def iszero_def)
qed

text \<open>
  C4 as first stated, for every value and every pair of thresholds, fails. A value that is
  NaN fails both comparisons and reaches the interpolation whatever the thresholds: with
  \<open>good = poor\<close> the divisor is zero, and the result is NaN. With finite thresholds
  whose difference overflows, a finite value between them whose position overflows too
  scores NaN.
\<close>

theorem calculateMetricScore_total_counterexample:
  "\<not> js_le NaN (Finite 5) \<and> \<not> js_ge NaN (Finite 5)
   \<and> iszero (js_sub (Finite 5) (Finite 5))
   \<and> calculateMetricScore NaN \<lparr>good = Finite 5, poor = Finite 5\<rparr> = NaN
   \<and> is_number (Finite (2 ^ 1023)) \<and> is_number (Finite (- (2 ^ 1023)))
   \<and> is_number (Finite (3 * 2 ^ 1022))
   \<and> calculateMetricScore (Finite (2 ^ 1023))
        \<lparr>good = Finite (- (2 ^ 1023)), poor = Finite (3 * 2 ^ 1022)\<rparr> = NaN"
proof -
  have "(2::rat) ^ 1024 \<le> 3 * 2 ^ 1022 - - (2 ^ 1023)" by simp
  then have r: "fl (3 * 2 ^ 1022 - - (2 ^ 1023)) = PosInf" by (rule fl_overflow)
  have "(2::rat) ^ 1024 \<le> 2 ^ 1023 - - (2 ^ 1023)" by simp
  then have p: "fl (2 ^ 1023 - - (2 ^ 1023)) = PosInf" by (rule fl_overflow)
  have "js_sub (Finite (3 * 2 ^ 1022)) (Finite (- (2 ^ 1023))) = fl (3 * 2 ^ 1022 - - (2 ^ 1023))"
    by (rule js_sub_ge) simp
  then have r': "js_sub (Finite (3 * 2 ^ 1022)) (Finite (- (2 ^ 1023))) = PosInf" by (simp only: r)
  have "js_sub (Finite (2 ^ 1023)) (Finite (- (2 ^ 1023))) = fl (2 ^ 1023 - - (2 ^ 1023))"
    by (rule js_sub_ge) simp
  then have p': "js_sub (Finite (2 ^ 1023)) (Finite (- (2 ^ 1023))) = PosInf" by (simp only: p)
  have d: "js_div PosInf PosInf = NaN" by (simp add: js_div_def)
  have m: "js_mul NaN (Finite 100) = NaN" by (simp add: js_mul_def)
  have s: "js_sub (Finite 100) NaN = NaN" by (simp add: js_sub_def js_add_def)
  have c1: "\<not> js_le (Finite (2 ^ 1023)) (Finite (- (2 ^ 1023)))" by (simp add: js_le_def)
  have c2: "\<not> js_ge (Finite (2 ^ 1023)) (Finite (3 * 2 ^ 1022))" by (simp add: js_le_def js_ge_def)
  have big: "calculateMetricScore (Finite (2 ^ 1023))
        \<lparr>good = Finite (- (2 ^ 1023)), poor = Finite (3 * 2 ^ 1022)\<rparr> = NaN"
    unfolding calculateMetricScore_def Let_def Threshold.simps
    by (simp only: c1 c2 if_False r' p' d m s Math_round.simps)
  have "calculateMetricScore NaN \<lparr>good = Finite 5, poor = Finite 5\<rparr> = NaN"
    by (simp add: calculateMetricScore_def eval_simps)
  then show ?thesis
    using big is_number_big
    by (simp add: js_le_def js_ge_def js_sub_def js_add_def iszero_def zero_def)
qed

text \<open>
  C9, as amended. For thresholds that are doubles with \<open>good < poor\<close> and a finite
  difference \<open>poor - good\<close>, \<open>calculateMetricScore\<close> never increases when the value
  increases; for integer thresholds below \<open>2 ^ 50\<close> in magnitude, the midpoint
  \<open>good + 0.5 * (poor - good)\<close> scores exactly 50.
\<close>

theorem calculateMetricScore_monotone:
  assumes "is_number (good t)" and "is_number (poor t)"
    and "js_lt (good t) (poor t)" and "isfin (js_sub (poor t) (good t))"
  shows "(\<forall>v1 v2. js_le v1 v2 \<longrightarrow>
            js_ge (calculateMetricScore v1 t) (calculateMetricScore v2 t))
       \<and> (\<forall>a b. good t = Finite (of_int a) \<and> poor t = Finite (of_int b)
              \<and> \<bar>a\<bar> < 2 ^ 50 \<and> \<bar>b\<bar> < 2 ^ 50 \<longrightarrow>
            calculateMetricScore
              (js_add (good t) (js_mul (Finite (1 / 2)) (js_sub (poor t) (good t)))) t = Finite 50)"
proof (intro conjI allI impI)
  fix v1 v2 assume "js_le v1 v2"
  with assms(1,2,4) show "js_ge (calculateMetricScore v1 t) (calculateMetricScore v2 t)"
    by (rule calculateMetricScore_mono)
next
  fix a b :: int
  assume h: "good t = Finite (of_int a) \<and> poor t = Finite (of_int b)
              \<and> \<bar>a\<bar> < 2 ^ 50 \<and> \<bar>b\<bar> < 2 ^ 50"
  then have ab: "a < b" using assms(3) by (simp add: js_lt_def)
  from h have g: "good t = Finite (of_int a)" and p: "poor t = Finite (of_int b)"
    and ba: "\<bar>a\<bar> < 2 ^ 50" and bb: "\<bar>b\<bar> < 2 ^ 50" by blast+
  show "calculateMetricScore
              (js_add (good t) (js_mul (Finite (1 / 2)) (js_sub (poor t) (good t)))) t = Finite 50"
    by (rule calculateMetricScore_midpoint [OF g p ab ba bb])
qed

theorem calculateMetricScore_monotone_witness:
  "is_number (Finite 500) \<and> is_number (Finite 1500) \<and> js_lt (Finite 500) (Finite 1500)
   \<and> js_sub (Finite 1500) (Finite 500) = Finite 1000
   \<and> js_le (Finite 750) (Finite 1045)
   \<and> calculateMetricScore (Finite 750) \<lparr>good = Finite 500, poor = Finite 1500\<rparr> = Finite 75
   \<and> calculateMetricScore (Finite 1045) \<lparr>good = Finite 500, poor = Finite 1500\<rparr> = Finite 45
   \<and> js_ge (Finite 75) (Finite 45)
   \<and> js_add (Finite 500) (js_mul (Finite (1 / 2)) (js_sub (Finite 1500) (Finite 500))) = Finite 1000
   \<and> calculateMetricScore (Finite 1000) \<lparr>good = Finite 500, poor = Finite 1500\<rparr> = Finite 50"
proof -
  have n: "is_number (good \<lparr>good = Finite 500, poor = Finite 1500\<rparr>)"
          "is_number (poor \<lparr>good = Finite 500, poor = Finite 1500\<rparr>)"
    by (simp_all add: is_double_numeral)
  have l: "js_lt (good \<lparr>good = Finite 500, poor = Finite 1500\<rparr>)
                 (poor \<lparr>good = Finite 500, poor = Finite 1500\<rparr>)" by (simp add: js_lt_def)
  have "js_sub (Finite 1500) (Finite 500) = fl (1500 - 500)" by (rule js_sub_ge) simp
  then have r: "js_sub (Finite 1500) (Finite 500) = Finite 1000" by (simp add: fl_numeral)
  have f: "isfin (js_sub (poor \<lparr>good = Finite 500, poor = Finite 1500\<rparr>)
                         (good \<lparr>good = Finite 500, poor = Finite 1500\<rparr>))"
    by (simp add: r isfin_def)
  have c: "calculateMetricScore (Finite 750) \<lparr>good = Finite 500, poor = Finite 1500\<rparr> = Finite 75"
          "calculateMetricScore (Finite 1045) \<lparr>good = Finite 500, poor = Finite 1500\<rparr> = Finite 45"
    by (simp_all add: calculateMetricScore_def eval_simps)
  have "js_mul (Finite (1 / 2)) (Finite 1000) = fl (1 / 2 * 1000)" by (rule js_mul_nonneg) simp_all
  then have hm: "js_mul (Finite (1 / 2)) (Finite 1000) = Finite 500" by (simp add: fl_numeral)
  have ha: "js_add (Finite 500) (Finite 500) = Finite 1000" by (simp add: js_add_def fl_numeral)
  have i: "(500::rat) = of_int 500" "(1500::rat) = of_int 1500" by simp_all
  note m = calculateMetricScore_monotone [OF n l f]
  from m have "js_le (Finite 750) (Finite 1045) \<longrightarrow>
      js_ge (calculateMetricScore (Finite 750) \<lparr>good = Finite 500, poor = Finite 1500\<rparr>)
            (calculateMetricScore (Finite 1045) \<lparr>good = Finite 500, poor = Finite 1500\<rparr>)"
    by blast
  moreover from m have "good \<lparr>good = Finite 500, poor = Finite 1500\<rparr> = Finite (of_int 500)
      \<and> poor \<lparr>good = Finite 500, poor = Finite 1500\<rparr> = Finite (of_int 1500)
      \<and> \<bar>500::int\<bar> < 2 ^ 50 \<and> \<bar>1500::int\<bar> < 2 ^ 50 \<longrightarrow>
      calculateMetricScore
        (js_add (good \<lparr>good = Finite 500, poor = Finite 1500\<rparr>)
           (js_mul (Finite (1 / 2)) (js_sub (poor \<lparr>good = Finite 500, poor = Finite 1500\<rparr>)
              (good \<lparr>good = Finite 500, poor = Finite 1500\<rparr>))))
        \<lparr>good = Finite 500, poor = Finite 1500\<rparr> = Finite 50"
    by blast
  ultimately show ?thesis
    by (simp add: is_double_numeral r c hm ha js_lt_def js_le_def js_ge_def)
qed

text \<open>
  C9 as first stated, for every pair of thresholds with \<open>good < poor\<close>, fails. Between
  thresholds one unit in the last place apart, the midpoint \<open>good + 0.5 * (poor - good)\<close>
  is rounded to \<open>good\<close> and scores 100. With finite thresholds whose difference overflows,
  the value 0 scores 100 and the larger value \<open>2 ^ 1023\<close> scores NaN, which no score is
  greater than or equal to.
\<close>

theorem calculateMetricScore_monotone_counterexample:
  "js_lt (Finite 1) (Finite (1 + 1 / 2 ^ 52))
   \<and> is_number (Finite 1) \<and> is_number (Finite (1 + 1 / 2 ^ 52))
   \<and> calculateMetricScore
        (js_add (Finite 1) (js_mul (Finite (1 / 2)) (js_sub (Finite (1 + 1 / 2 ^ 52)) (Finite 1))))
        \<lparr>good = Finite 1, poor = Finite (1 + 1 / 2 ^ 52)\<rparr> = Finite 100
   \<and> is_number (Finite (- (2 ^ 1023))) \<and> is_number (Finite (3 * 2 ^ 1022))
   \<and> js_lt (Finite (- (2 ^ 1023))) (Finite (3 * 2 ^ 1022))
   \<and> js_le (Finite 0) (Finite (2 ^ 1023))
   \<and> calculateMetricScore (Finite 0)
        \<lparr>good = Finite (- (2 ^ 1023)), poor = Finite (3 * 2 ^ 1022)\<rparr> = Finite 100
   \<and> calculateMetricScore (Finite (2 ^ 1023))
        \<lparr>good = Finite (- (2 ^ 1023)), poor = Finite (3 * 2 ^ 1022)\<rparr> = NaN
   \<and> \<not> js_ge (Finite 100) NaN"
proof -
  have "(2::rat) ^ 1024 \<le> 3 * 2 ^ 1022 - - (2 ^ 1023)" by simp
  then have r: "fl (3 * 2 ^ 1022 - - (2 ^ 1023)) = PosInf" by (rule fl_overflow)
  have "(2::rat) ^ 1024 \<le> 2 ^ 1023 - - (2 ^ 1023)" by simp
  then have p: "fl (2 ^ 1023 - - (2 ^ 1023)) = PosInf" by (rule fl_overflow)
  have "js_sub (Finite (3 * 2 ^ 1022)) (Finite (- (2 ^ 1023))) = fl (3 * 2 ^ 1022 - - (2 ^ 1023))"
    by (rule js_sub_ge) simp
  then have r': "js_sub (Finite (3 * 2 ^ 1022)) (Finite (- (2 ^ 1023))) = PosInf" by (simp only: r)
  have "js_sub (Finite (2 ^ 1023)) (Finite (- (2 ^ 1023))) = fl (2 ^ 1023 - - (2 ^ 1023))"
    by (rule js_sub_ge) simp
  then have p': "js_sub (Finite (2 ^ 1023)) (Finite (- (2 ^ 1023))) = PosInf" by (simp only: p)
  have "round_double (pow2 1023) = pow2 1023" by (rule round_double_pow2) simp
  then have "round_double (2 ^ 1023) = 2 ^ 1023" by (simp only: pow2_numeral)
  moreover have "\<bar>(2::rat) ^ 1023\<bar> < 2 ^ 1024" by simp
  ultimately have e: "fl (2 ^ 1023) = Finite (2 ^ 1023)" by (rule fl_exact)
  have "js_sub (Finite 0) (Finite (- (2 ^ 1023))) = fl (0 - - (2 ^ 1023))" by (rule js_sub_ge) simp
  then have q': "js_sub (Finite 0) (Finite (- (2 ^ 1023))) = Finite (2 ^ 1023)" using e by simp
  have d: "js_div PosInf PosInf = NaN" "js_div (Finite (2 ^ 1023)) PosInf = Finite 0"
    by (simp_all add: js_div_def zero_def)
  have m: "js_mul NaN (Finite 100) = NaN" "js_mul (Finite 0) (Finite 100) = Finite 0"
    by (simp_all add: js_mul_def zero_def iszero_def)
  have s: "js_sub (Finite 100) NaN = NaN" "js_sub (Finite 100) (Finite 0) = Finite 100"
    using js_sub_ge [of 0 100] by (simp_all add: js_sub_def js_add_def fl_numeral)
  have o: "Math_round (Finite 100) = Finite 100" by (simp add: floor_numeral_divide)
  have c1: "\<not> js_le (Finite (2 ^ 1023)) (Finite (- (2 ^ 1023)))"
           "\<not> js_le (Finite 0) (Finite (- (2 ^ 1023)))" by (simp_all add: js_le_def)
  have c2: "\<not> js_ge (Finite (2 ^ 1023)) (Finite (3 * 2 ^ 1022))"
           "\<not> js_ge (Finite 0) (Finite (3 * 2 ^ 1022))" by (simp_all add: js_le_def js_ge_def)
  have big: "calculateMetricScore (Finite (2 ^ 1023))
        \<lparr>good = Finite (- (2 ^ 1023)), poor = Finite (3 * 2 ^ 1022)\<rparr> = NaN"
    unfolding calculateMetricScore_def Let_def Threshold.simps
    by (simp only: c1 c2 if_False r' p' d m s Math_round.simps)
  have small: "calculateMetricScore (Finite 0)
        \<lparr>good = Finite (- (2 ^ 1023)), poor = Finite (3 * 2 ^ 1022)\<rparr> = Finite 100"
    unfolding calculateMetricScore_def Let_def Threshold.simps
    by (simp only: c1 c2 if_False r' q' d m s o)
  have mid: "calculateMetricScore
        (js_add (Finite 1) (js_mul (Finite (1 / 2)) (js_sub (Finite (1 + 1 / 2 ^ 52)) (Finite 1))))
        \<lparr>good = Finite 1, poor = Finite (1 + 1 / 2 ^ 52)\<rparr> = Finite 100"
    by (simp add: calculateMetricScore_def eval_simps)
  have n: "is_number (Finite 1)" "is_number (Finite (1 + 1 / 2 ^ 52))"
    by (simp_all add: is_double_def eval_simps)
  show ?thesis
    using big small mid n is_number_big by (simp add: js_lt_def js_le_def js_ge_def)
qed

section \<open>The overall score\<close>

lemma calculateMetricScore_good: "js_le v (good t) \<Longrightarrow> calculateMetricScore v t = Finite 100"
  by (simp add: calculateMetricScore_def)

lemma fid_default_zero: "calculateMetricScore (Finite 0) (fid DEFAULT_THRESHOLDS) = Finite 100"
  by (simp add: calculateMetricScore_def DEFAULT_THRESHOLDS_def js_le_def)

lemma ttff_default_zero: "calculateMetricScore (Finite 0) (ttff DEFAULT_THRESHOLDS) = Finite 100"
  by (simp add: calculateMetricScore_def DEFAULT_THRESHOLDS_def js_le_def)

text \<open>The weighted sums of the examples, each operation rounded as the code rounds it.\<close>

lemma overall_all_good:
  "Math_round (js_add (js_add (js_mul (Finite 100) (ttff DEFAULT_WEIGHTS))
                              (js_mul (Finite 100) (tti DEFAULT_WEIGHTS)))
                      (js_mul (Finite 100) (fid DEFAULT_WEIGHTS))) = Finite 100"
  by (simp add: DEFAULT_WEIGHTS_value eval_simps)

lemma overall_all_poor:
  "Math_round (js_add (js_add (js_mul (Finite 0) (ttff DEFAULT_WEIGHTS))
                              (js_mul (Finite 0) (tti DEFAULT_WEIGHTS)))
                      (js_mul (Finite 0) (fid DEFAULT_WEIGHTS))) = Finite 0"
  by (simp add: DEFAULT_WEIGHTS_value eval_simps)

lemma overall_rounded_down:
  "Math_round (js_add (js_add (js_mul (Finite 100) (ttff DEFAULT_WEIGHTS))
                              (js_mul (Finite 45) (tti DEFAULT_WEIGHTS)))
                      (js_mul (Finite 97) (fid DEFAULT_WEIGHTS))) = Finite 74"
  by (simp add: DEFAULT_WEIGHTS_value eval_simps)

lemma overall_below_half:
  "Math_round (js_add (js_add (js_mul (Finite 0) (ttff DEFAULT_WEIGHTS))
                              (js_mul (Finite 2) (tti DEFAULT_WEIGHTS)))
                      (js_mul (Finite 62) (fid DEFAULT_WEIGHTS))) = Finite 19"
  by (simp add: DEFAULT_WEIGHTS_value eval_simps)

lemma scores_default:
  "calculateMetricScore (Finite 100) (ttff DEFAULT_THRESHOLDS) = Finite 100"
  "calculateMetricScore (Finite 200) (tti DEFAULT_THRESHOLDS) = Finite 100"
  "calculateMetricScore (Finite 10) (fid DEFAULT_THRESHOLDS) = Finite 100"
  "calculateMetricScore (Finite 1000) (ttff DEFAULT_THRESHOLDS) = Finite 0"
  "calculateMetricScore (Finite 2000) (tti DEFAULT_THRESHOLDS) = Finite 0"
  "calculateMetricScore (Finite 200) (fid DEFAULT_THRESHOLDS) = Finite 0"
  "calculateMetricScore (Finite 300) (ttff DEFAULT_THRESHOLDS) = Finite 100"
  "calculateMetricScore (Finite 900) (ttff DEFAULT_THRESHOLDS) = Finite 0"
  by (simp_all add: calculateMetricScore_def DEFAULT_THRESHOLDS_def js_le_def js_ge_def)

lemma scores_interpolated:
  "calculateMetricScore (Finite 1045) (tti DEFAULT_THRESHOLDS) = Finite 45"
  "calculateMetricScore (Finite 53) (fid DEFAULT_THRESHOLDS) = Finite 97"
  "calculateMetricScore (Finite 1480) (tti DEFAULT_THRESHOLDS) = Finite 2"
  "calculateMetricScore (Finite 88) (fid DEFAULT_THRESHOLDS) = Finite 62"
  by (simp_all add: calculateMetricScore_def DEFAULT_THRESHOLDS_def eval_simps)

lemma categories:
  "getScoreCategory (Finite 100) = Excellent" "getScoreCategory (Finite 0) = Poor"
  "getScoreCategory (Finite 74) = NeedsImprovement" "getScoreCategory (Finite 19) = Poor"
  by (simp_all add: getScoreCategory_def js_ge_def js_le_def)

text \<open>
  C2. \<open>calculatePerformanceScore\<close> scores \<open>timeToFirstFrameMs\<close> as the TTI value when
  \<open>timeToInteractiveMs\<close> is absent and 0 as the FID value when \<open>firstInputDelay\<close> is
  absent; with the default thresholds, metrics without \<open>firstInputDelay\<close> have a FID
  sub-score of 100.
\<close>

theorem calculatePerformanceScore_defaults:
  "(timeToInteractiveMs m = None \<longrightarrow>
      tti (breakdown (calculatePerformanceScore m t w))
        = calculateMetricScore (timeToFirstFrameMs m) (tti t))
   \<and> (firstInputDelay m = None \<longrightarrow>
      fid (breakdown (calculatePerformanceScore m t w)) = calculateMetricScore (Finite 0) (fid t))
   \<and> (firstInputDelay m = None \<longrightarrow>
      fid (breakdown (calculatePerformanceScore m DEFAULT_THRESHOLDS w)) = Finite 100)"
  by (simp add: calculatePerformanceScore_eq fid_default_zero)

theorem calculatePerformanceScore_defaults_witness:
  "timeToInteractiveMs \<lparr>timeToFirstFrameMs = Finite 200, timeToInteractiveMs = None,
      firstInputDelay = None, mountStartTimeMs = Finite 1000, firstFrameTimeMs = Finite 1200,
      interactiveTimeMs = None\<rparr> = None
   \<and> firstInputDelay \<lparr>timeToFirstFrameMs = Finite 200, timeToInteractiveMs = None,
      firstInputDelay = None, mountStartTimeMs = Finite 1000, firstFrameTimeMs = Finite 1200,
      interactiveTimeMs = None\<rparr> = None
   \<and> tti (breakdown (calculatePerformanceScore \<lparr>timeToFirstFrameMs = Finite 200,
      timeToInteractiveMs = None, firstInputDelay = None, mountStartTimeMs = Finite 1000,
      firstFrameTimeMs = Finite 1200, interactiveTimeMs = None\<rparr>
      DEFAULT_THRESHOLDS DEFAULT_WEIGHTS)) = Finite 100
   \<and> fid (breakdown (calculatePerformanceScore \<lparr>timeToFirstFrameMs = Finite 200,
      timeToInteractiveMs = None, firstInputDelay = None, mountStartTimeMs = Finite 1000,
      firstFrameTimeMs = Finite 1200, interactiveTimeMs = None\<rparr>
      DEFAULT_THRESHOLDS DEFAULT_WEIGHTS)) = Finite 100"
  using calculatePerformanceScore_defaults [of "\<lparr>timeToFirstFrameMs = Finite 200,
      timeToInteractiveMs = None, firstInputDelay = None, mountStartTimeMs = Finite 1000,
      firstFrameTimeMs = Finite 1200, interactiveTimeMs = None\<rparr>" DEFAULT_THRESHOLDS DEFAULT_WEIGHTS]
  by (simp add: calculateMetricScore_def DEFAULT_THRESHOLDS_def js_le_def)

text \<open>
  C3. For all metrics, thresholds and weights, \<open>calculatePerformanceScore\<close> returns the
  three sub-scores, \<open>overall = round(ttffScore * weights.ttff + ttiScore * weights.tti +
  fidScore * weights.fid)\<close> and \<open>category = getScoreCategory(overall)\<close>. With the defaults,
  metrics of 100, 200 and 10 ms give sub-scores of 100, an overall score of 100 and the
  category excellent; metrics of 1000, 2000 and 200 ms give sub-scores of 0, an overall
  score of 0 and the category poor.
\<close>

theorem calculatePerformanceScore_overall:
  "ttff (breakdown (calculatePerformanceScore m t w))
      = calculateMetricScore (timeToFirstFrameMs m) (ttff t)
   \<and> tti (breakdown (calculatePerformanceScore m t w))
      = calculateMetricScore
          (case timeToInteractiveMs m of Some v \<Rightarrow> v | None \<Rightarrow> timeToFirstFrameMs m) (tti t)
   \<and> fid (breakdown (calculatePerformanceScore m t w))
      = calculateMetricScore
          (case firstInputDelay m of Some d \<Rightarrow> firstInputDelayMs d | None \<Rightarrow> Finite 0) (fid t)
   \<and> overall (calculatePerformanceScore m t w)
      = Math_round
          (js_add (js_add
             (js_mul (ttff (breakdown (calculatePerformanceScore m t w))) (ttff w))
             (js_mul (tti (breakdown (calculatePerformanceScore m t w))) (tti w)))
             (js_mul (fid (breakdown (calculatePerformanceScore m t w))) (fid w)))
   \<and> category (calculatePerformanceScore m t w)
      = getScoreCategory (overall (calculatePerformanceScore m t w))
   \<and> calculatePerformanceScore
        \<lparr>timeToFirstFrameMs = Finite 100, timeToInteractiveMs = Some (Finite 200),
         firstInputDelay = Some \<lparr>firstInputDelayMs = Finite 10, firstInputTimeMs = it,
           inputProcessingStartTimeMs = ps, inputType = k\<rparr>,
         mountStartTimeMs = ms, firstFrameTimeMs = ff, interactiveTimeMs = ia\<rparr>
        DEFAULT_THRESHOLDS DEFAULT_WEIGHTS
      = \<lparr>overall = Finite 100,
         breakdown = \<lparr>ttff = Finite 100, tti = Finite 100, fid = Finite 100\<rparr>,
         category = Excellent\<rparr>
   \<and> calculatePerformanceScore
        \<lparr>timeToFirstFrameMs = Finite 1000, timeToInteractiveMs = Some (Finite 2000),
         firstInputDelay = Some \<lparr>firstInputDelayMs = Finite 200, firstInputTimeMs = it,
           inputProcessingStartTimeMs = ps, inputType = k\<rparr>,
         mountStartTimeMs = ms, firstFrameTimeMs = ff, interactiveTimeMs = ia\<rparr>
        DEFAULT_THRESHOLDS DEFAULT_WEIGHTS
      = \<lparr>overall = Finite 0,
         breakdown = \<lparr>ttff = Finite 0, tti = Finite 0, fid = Finite 0\<rparr>,
         category = Poor\<rparr>"
  by (simp add: calculatePerformanceScore_eq scores_default overall_all_good overall_all_poor
        categories)

theorem calculatePerformanceScore_overall_witness:
  "overall (calculatePerformanceScore
        \<lparr>timeToFirstFrameMs = Finite 300, timeToInteractiveMs = Some (Finite 1045),
         firstInputDelay = Some \<lparr>firstInputDelayMs = Finite 53, firstInputTimeMs = Finite 2000,
           inputProcessingStartTimeMs = Finite 2053, inputType = Touch\<rparr>,
         mountStartTimeMs = Finite 1000, firstFrameTimeMs = Finite 1300,
         interactiveTimeMs = Some (Finite 2045)\<rparr>
        DEFAULT_THRESHOLDS DEFAULT_WEIGHTS) = Finite 74
   \<and> category (calculatePerformanceScore
        \<lparr>timeToFirstFrameMs = Finite 300, timeToInteractiveMs = Some (Finite 1045),
         firstInputDelay = Some \<lparr>firstInputDelayMs = Finite 53, firstInputTimeMs = Finite 2000,
           inputProcessingStartTimeMs = Finite 2053, inputType = Touch\<rparr>,
         mountStartTimeMs = Finite 1000, firstFrameTimeMs = Finite 1300,
         interactiveTimeMs = Some (Finite 2045)\<rparr>
        DEFAULT_THRESHOLDS DEFAULT_WEIGHTS) = NeedsImprovement
   \<and> overall (calculatePerformanceScore
        \<lparr>timeToFirstFrameMs = Finite 900, timeToInteractiveMs = Some (Finite 1480),
         firstInputDelay = Some \<lparr>firstInputDelayMs = Finite 88, firstInputTimeMs = Finite 3000,
           inputProcessingStartTimeMs = Finite 3088, inputType = Scroll\<rparr>,
         mountStartTimeMs = Finite 1000, firstFrameTimeMs = Finite 1900,
         interactiveTimeMs = Some (Finite 2480)\<rparr>
        DEFAULT_THRESHOLDS DEFAULT_WEIGHTS) = Finite 19
   \<and> category (calculatePerformanceScore
        \<lparr>timeToFirstFrameMs = Finite 900, timeToInteractiveMs = Some (Finite 1480),
         firstInputDelay = Some \<lparr>firstInputDelayMs = Finite 88, firstInputTimeMs = Finite 3000,
           inputProcessingStartTimeMs = Finite 3088, inputType = Scroll\<rparr>,
         mountStartTimeMs = Finite 1000, firstFrameTimeMs = Finite 1900,
         interactiveTimeMs = Some (Finite 2480)\<rparr>
        DEFAULT_THRESHOLDS DEFAULT_WEIGHTS) = Poor"
  using calculatePerformanceScore_overall [of
        "\<lparr>timeToFirstFrameMs = Finite 300, timeToInteractiveMs = Some (Finite 1045),
         firstInputDelay = Some \<lparr>firstInputDelayMs = Finite 53, firstInputTimeMs = Finite 2000,
           inputProcessingStartTimeMs = Finite 2053, inputType = Touch\<rparr>,
         mountStartTimeMs = Finite 1000, firstFrameTimeMs = Finite 1300,
         interactiveTimeMs = Some (Finite 2045)\<rparr>" DEFAULT_THRESHOLDS DEFAULT_WEIGHTS]
      calculatePerformanceScore_overall [of
        "\<lparr>timeToFirstFrameMs = Finite 900, timeToInteractiveMs = Some (Finite 1480),
         firstInputDelay = Some \<lparr>firstInputDelayMs = Finite 88, firstInputTimeMs = Finite 3000,
           inputProcessingStartTimeMs = Finite 3088, inputType = Scroll\<rparr>,
         mountStartTimeMs = Finite 1000, firstFrameTimeMs = Finite 1900,
         interactiveTimeMs = Some (Finite 2480)\<rparr>" DEFAULT_THRESHOLDS DEFAULT_WEIGHTS]
  by (simp add: scores_default scores_interpolated overall_rounded_down overall_below_half
        categories)

section \<open>The score bands\<close>

text \<open>
  C5. For every score from 0 to 100, \<open>getScoreCategory\<close> answers excellent from 90 on,
  good from 75 to below 90, needs-improvement from 50 to below 75 and poor below 50, each
  band including its lower bound: 90 is excellent, 89 and 75 are good, 74 and 50 need
  improvement, 49 is poor.
\<close>

theorem getScoreCategory_bands:
  assumes "js_le (Finite 0) x" and "js_le x (Finite 100)"
  shows "(js_ge x (Finite 90) \<longrightarrow> getScoreCategory x = Excellent)
       \<and> (js_le (Finite 75) x \<and> js_lt x (Finite 90) \<longrightarrow> getScoreCategory x = Good)
       \<and> (js_le (Finite 50) x \<and> js_lt x (Finite 75) \<longrightarrow> getScoreCategory x = NeedsImprovement)
       \<and> (js_lt x (Finite 50) \<longrightarrow> getScoreCategory x = Poor)
       \<and> getScoreCategory (Finite 90) = Excellent \<and> getScoreCategory (Finite 89) = Good
       \<and> getScoreCategory (Finite 75) = Good \<and> getScoreCategory (Finite 74) = NeedsImprovement
       \<and> getScoreCategory (Finite 50) = NeedsImprovement \<and> getScoreCategory (Finite 49) = Poor"
  using assms by (cases x) (auto simp: getScoreCategory_def js_ge_def js_le_def js_lt_def)

theorem getScoreCategory_bands_witness:
  "js_le (Finite 0) (Finite 80) \<and> js_le (Finite 80) (Finite 100)
   \<and> js_le (Finite 75) (Finite 80) \<and> js_lt (Finite 80) (Finite 90)
   \<and> getScoreCategory (Finite 80) = Good"
  using getScoreCategory_bands [of "Finite 80"] by (simp add: js_le_def js_lt_def js_ge_def)

section \<open>Closure of the numbers\<close>

text \<open>The rounded value is a double: rounding it again changes nothing.\<close>

lemma round_double_idem_pos:
  assumes "0 < x"
  shows "round_double (round_double x) = round_double x"
proof -
  define e where "e = max (bexp x) (- 1022)"
  define n where "n = rne (x / quantum x)"
  have q: "quantum x = pow2 (e - 52)" by (simp add: quantum_pow2 e_def)
  have r: "round_double x = of_int n * pow2 (e - 52)" by (simp add: round_double_def n_def q)
  have nz: "x \<noteq> 0" using assms by simp
  have "\<bar>x\<bar> < pow2 (bexp x + 1)" using nz by (rule bexp_bounds)
  moreover have "pow2 (bexp x + 1) \<le> pow2 (e + 1)" by (rule pow2_mono) (simp add: e_def)
  ultimately have xe: "x < pow2 (e + 1)" using assms by simp
  have "x / pow2 (e - 52) < pow2 (e + 1) / pow2 (e - 52)"
    using xe by (rule divide_strict_right_mono) simp
  moreover have "pow2 (e + 1) / pow2 (e - 52) = pow2 53" using pow2_diff [of "e + 1" "e - 52"] by simp
  ultimately have "x / quantum x \<le> of_int (2 ^ 53)" by (simp add: q pow2_numeral)
  then have "rne (x / quantum x) \<le> rne (of_int (2 ^ 53))" by (rule rne_mono)
  then have nu: "n \<le> 2 ^ 53" by (simp only: n_def rne_of_int)
  have "0 \<le> x / quantum x" using assms by simp
  then have "rne 0 \<le> rne (x / quantum x)" by (rule rne_mono)
  then have nl: "0 \<le> n" by (simp add: n_def)
  consider "n = 0" | "n = 2 ^ 53" | "0 < n" "n < 2 ^ 53" using nl nu by linarith
  then show ?thesis
  proof cases
    case 1
    then show ?thesis by (simp add: r)
  next
    case 2
    then have "round_double x = pow2 53 * pow2 (e - 52)" by (simp add: r pow2_numeral)
    moreover have "53 + (e - 52) = e + 1" by simp
    then have "pow2 53 * pow2 (e - 52) = pow2 (e + 1)" by (simp only: pow2_add [symmetric])
    ultimately have re: "round_double x = pow2 (e + 1)" by simp
    have "- 1074 \<le> e + 1" by (simp add: e_def)
    then show ?thesis unfolding re by (rule round_double_pow2)
  next
    case 3
    define y where "y = round_double x"
    have y: "y = of_int n * pow2 (e - 52)" by (simp add: y_def r)
    have ypos: "0 < y" using 3(1) by (simp add: y)
    have "(of_int n :: rat) < of_int (2 ^ 53)" using 3(2) by (simp only: of_int_less_iff)
    then have "(of_int n :: rat) < pow2 53" by (simp add: pow2_numeral)
    then have "of_int n * pow2 (e - 52) < pow2 53 * pow2 (e - 52)"
      by (rule mult_strict_right_mono) simp
    moreover have "53 + (e - 52) = e + 1" by simp
    then have "pow2 53 * pow2 (e - 52) = pow2 (e + 1)" by (simp only: pow2_add [symmetric])
    ultimately have "y < pow2 (e + 1)" by (simp add: y)
    then have "\<bar>y\<bar> < pow2 (e + 1)" using ypos by simp
    moreover have "y \<noteq> 0" using ypos by simp
    ultimately have "bexp y \<le> e" by (intro bexp_le)
    then have "max (bexp y) (- 1022) - 52 \<le> e - 52" by (simp add: e_def)
    moreover have "y / pow2 (e - 52) \<in> \<int>" by (simp add: y)
    ultimately have "round_double y = y" by (rule round_double_on_grid [rotated])
    then show ?thesis by (simp add: y_def)
  qed
qed

lemma round_double_idem: "round_double (round_double x) = round_double x"
proof -
  consider "0 < x" | "x = 0" | "x < 0" by linarith
  then show ?thesis
  proof cases
    case 1
    then show ?thesis by (rule round_double_idem_pos)
  next
    case 2
    then show ?thesis by simp
  next
    case 3
    then have "0 < - x" by simp
    then have "round_double (round_double (- x)) = round_double (- x)"
      by (rule round_double_idem_pos)
    then show ?thesis by (simp add: round_double_minus)
  qed
qed

text \<open>Every operation maps numbers to numbers.\<close>

lemma is_number_fl [simp]: "is_number (fl x)"
  by (simp add: fl_def Let_def zero_def inf_def is_double_def round_double_idem not_le)

lemma is_number_zero [simp]: "is_number (zero b)"
  by (simp add: zero_def)

lemma is_number_inf [simp]: "is_number (inf b)"
  by (simp add: inf_def)

lemma is_number_js_neg: "is_number a \<Longrightarrow> is_number (js_neg a)"
  by (cases a) (simp_all add: is_double_def round_double_minus)

lemma is_number_js_add: "is_number a \<Longrightarrow> is_number b \<Longrightarrow> is_number (js_add a b)"
  by (cases a; cases b) (simp_all add: js_add_def Let_def)

lemma is_number_js_sub: "is_number a \<Longrightarrow> is_number b \<Longrightarrow> is_number (js_sub a b)"
  by (simp add: js_sub_def is_number_js_add is_number_js_neg)

lemma is_number_js_mul: "is_number (js_mul a b)"
  by (simp add: js_mul_def Let_def)

lemma is_number_js_div: "is_number (js_div a b)"
  by (simp add: js_div_def Let_def)

text \<open>The default thresholds and weights are numbers.\<close>

lemma DEFAULT_THRESHOLDS_numbers:
  "is_number (good (ttff DEFAULT_THRESHOLDS)) \<and> is_number (poor (ttff DEFAULT_THRESHOLDS))
   \<and> is_number (good (tti DEFAULT_THRESHOLDS)) \<and> is_number (poor (tti DEFAULT_THRESHOLDS))
   \<and> is_number (good (fid DEFAULT_THRESHOLDS)) \<and> is_number (poor (fid DEFAULT_THRESHOLDS))"
  by (simp add: DEFAULT_THRESHOLDS_def is_double_numeral)

lemma DEFAULT_WEIGHTS_numbers:
  "is_number (ttff DEFAULT_WEIGHTS) \<and> is_number (tti DEFAULT_WEIGHTS)
   \<and> is_number (fid DEFAULT_WEIGHTS)"
  by (simp add: DEFAULT_WEIGHTS_def is_number_fl)

section \<open>Runs of the hook\<close>

lemma run_Nil: "run [] s = s"
  by (simp add: run_def)

lemma run_Cons: "run (e # es) s = run es (step s e)"
  by (simp add: run_def)

lemma run_snoc: "run (es @ [e]) s = step (run es s) e"
  by (simp add: run_def)

lemma run_append: "run (es @ es') s = run es' (run es s)"
  by (simp add: run_def)

lemmas hook_defs =
  run_def usePerformanceMeasurement_def firstFrameEffect_def firstFrameTask_def
  markInteractive_def setTimeout_def clearTimeout_def logFinalMetrics_def
  measureFirstInputDelay_def firstInputTask_def onStartShouldSetPanResponder_def
  onMoveShouldSetPanResponder_def cleanup_def js_or_def js_or_num_def truthy_def Let_def

text \<open>What \<open>logFinalMetrics\<close> leaves alone.\<close>

lemma logFinalMetrics_logged: "hasLoggedRef s \<Longrightarrow> logFinalMetrics s = s"
  by (simp add: logFinalMetrics_def)

lemma logFinalMetrics_calls:
  "calls (logFinalMetrics s) = calls s
   \<or> (\<exists>m sc. calls (logFinalMetrics s) = calls s @ [Report m sc])"
  by (simp add: logFinalMetrics_def clearTimeout_def Let_def split: option.splits)

lemma logFinalMetrics_interactiveTimeMsRef:
  "interactiveTimeMsRef (logFinalMetrics s) = interactiveTimeMsRef s"
  by (simp add: logFinalMetrics_def clearTimeout_def Let_def split: option.splits)

lemma logFinalMetrics_isInteractive:
  "filter isInteractive (calls (logFinalMetrics s)) = filter isInteractive (calls s)"
  using logFinalMetrics_calls [of s] by auto

lemma logFinalMetrics_input_fields:
  "microtasks (logFinalMetrics s) = microtasks s"
  "hasRecordedFirstInputRef (logFinalMetrics s) = hasRecordedFirstInputRef s"
  "firstInputDelayRef (logFinalMetrics s) = firstInputDelayRef s"
  by (simp_all add: logFinalMetrics_def clearTimeout_def Let_def split: option.splits)

lemma logFinalMetrics_populated:
  "metricsRef (logFinalMetrics s) = None \<longleftrightarrow> metricsRef s = None"
  by (simp add: logFinalMetrics_def clearTimeout_def Let_def split: option.splits)

lemma logFinalMetrics_queue:
  "microtasks (logFinalMetrics s) = microtasks s"
  "firstFrameTimeMsRef (logFinalMetrics s) = firstFrameTimeMsRef s"
  by (simp_all add: logFinalMetrics_def clearTimeout_def Let_def split: option.splits)

section \<open>Marking the component interactive\<close>

lemma markInteractive_marked: "interactiveTimeMsRef (markInteractive now s) \<noteq> None"
  by (simp add: markInteractive_def setTimeout_def Let_def)

lemma markInteractive_noop: "interactiveTimeMsRef s \<noteq> None \<Longrightarrow> markInteractive now s = s"
  by (simp add: markInteractive_def)

lemma step_interactiveTimeMsRef:
  "interactiveTimeMsRef s \<noteq> None \<Longrightarrow> interactiveTimeMsRef (step s e) = interactiveTimeMsRef s"
proof (cases e)
  case (RunMicrotask now)
  then show ?thesis
    by (cases "microtasks s"; cases "hd (microtasks s)")
       (simp_all add: firstFrameTask_def firstInputTask_def Let_def
          logFinalMetrics_interactiveTimeMsRef split: option.splits)
qed (simp_all add: firstFrameEffect_def markInteractive_def onStartShouldSetPanResponder_def
       onMoveShouldSetPanResponder_def measureFirstInputDelay_def cleanup_def clearTimeout_def
       logFinalMetrics_interactiveTimeMsRef Let_def split: option.splits)

lemma run_interactiveTimeMsRef:
  "interactiveTimeMsRef s \<noteq> None \<Longrightarrow> interactiveTimeMsRef (run es s) = interactiveTimeMsRef s"
proof (induction es arbitrary: s)
  case Nil
  then show ?case by (simp add: run_Nil)
next
  case (Cons e es)
  then show ?case by (simp add: run_Cons step_interactiveTimeMsRef)
qed

lemma step_interactiveOnce: "interactiveOnce s \<Longrightarrow> interactiveOnce (step s e)"
proof (cases e)
  case (RunMicrotask now)
  assume "interactiveOnce s"
  then show ?thesis using RunMicrotask
    by (cases "microtasks s"; cases "hd (microtasks s)")
       (simp_all add: interactiveOnce_def firstFrameTask_def firstInputTask_def Let_def
          logFinalMetrics_interactiveTimeMsRef logFinalMetrics_isInteractive
          split: option.splits)
next
  case (MarkInteractive now)
  assume "interactiveOnce s"
  then show ?thesis using MarkInteractive
    by (simp add: interactiveOnce_def markInteractive_def setTimeout_def Let_def)
qed (simp_all add: interactiveOnce_def firstFrameEffect_def onStartShouldSetPanResponder_def
       onMoveShouldSetPanResponder_def measureFirstInputDelay_def cleanup_def clearTimeout_def
       logFinalMetrics_interactiveTimeMsRef logFinalMetrics_isInteractive Let_def
       split: option.splits)

lemma run_interactiveOnce: "interactiveOnce s \<Longrightarrow> interactiveOnce (run es s)"
  by (induction es arbitrary: s) (simp_all add: run_Nil run_Cons step_interactiveOnce)

lemma init_interactiveOnce: "interactiveOnce (usePerformanceMeasurement mountTime)"
  by (simp add: interactiveOnce_def usePerformanceMeasurement_def)

text \<open>
  C6. \<open>markInteractive\<close> is idempotent: once the interactive timestamp is set, a later
  call, whatever happened in between, leaves the whole state as it is
  (\<open>timeToInteractiveMs\<close>, the timestamp and the score are not touched, no observer is
  called), and in every run the \<open>onInteractive\<close> observer is called at most once.
\<close>

theorem markInteractive_idempotent:
  "(interactiveTimeMsRef s \<noteq> None \<longrightarrow> markInteractive now s = s)
   \<and> markInteractive now' (run es (markInteractive now s)) = run es (markInteractive now s)
   \<and> length (filter isInteractive (calls (run es (usePerformanceMeasurement mountTime)))) \<le> 1"
proof (intro conjI impI)
  show "markInteractive now s = s" if "interactiveTimeMsRef s \<noteq> None"
    using that by (rule markInteractive_noop)
  have "interactiveTimeMsRef (run es (markInteractive now s)) \<noteq> None"
    using run_interactiveTimeMsRef [OF markInteractive_marked] markInteractive_marked by metis
  then show "markInteractive now' (run es (markInteractive now s)) = run es (markInteractive now s)"
    by (rule markInteractive_noop)
  show "length (filter isInteractive (calls (run es (usePerformanceMeasurement mountTime)))) \<le> 1"
    using run_interactiveOnce [OF init_interactiveOnce] by (simp add: interactiveOnce_def)
qed

theorem markInteractive_idempotent_witness:
  "interactiveTimeMsRef (markInteractive (Finite 1010) (usePerformanceMeasurement (Finite 1000)))
     \<noteq> None
   \<and> markInteractive (Finite 1020)
         (markInteractive (Finite 1010) (usePerformanceMeasurement (Finite 1000)))
       = markInteractive (Finite 1010) (usePerformanceMeasurement (Finite 1000))
   \<and> length (filter isInteractive
         (calls (run [MarkInteractive (Finite 1010), MarkInteractive (Finite 1020)]
                   (usePerformanceMeasurement (Finite 1000))))) \<le> 1"
proof -
  have h: "interactiveTimeMsRef (markInteractive (Finite 1010) (usePerformanceMeasurement (Finite 1000)))
             = Some (Finite 1010)"
    by (simp add: markInteractive_def usePerformanceMeasurement_def setTimeout_def Let_def)
  from markInteractive_idempotent
         [where s = "markInteractive (Finite 1010) (usePerformanceMeasurement (Finite 1000))"
            and now = "Finite 1020"
            and es = "[MarkInteractive (Finite 1010), MarkInteractive (Finite 1020)]"
            and mountTime = "Finite 1000"] h
  show ?thesis by simp
qed

lemma ttff_score_default_zero:
  "timeToFirstFrameMs m = Finite 0 \<Longrightarrow>
   ttff (breakdown (calculatePerformanceScore m DEFAULT_THRESHOLDS DEFAULT_WEIGHTS)) = Finite 100"
  by (simp add: calculatePerformanceScore_eq ttff_default_zero)

text \<open>
  C10. When \<open>markInteractive\<close> runs before the deferred first-frame capture has filled in
  the metrics, the metrics it stores and passes to \<open>onInteractive\<close> have 0 for
  \<open>timeToFirstFrameMs\<close> and for \<open>firstFrameTimeMs\<close>, and the score computed then has a
  TTFF sub-score of 100.
\<close>

theorem markInteractive_before_first_frame:
  assumes "metricsRef s = None" and "interactiveTimeMsRef s = None"
  shows "\<exists>m sc. metricsRef (markInteractive now s) = Some m
           \<and> metrics (markInteractive now s) = Some m
           \<and> calls (markInteractive now s) = calls s @ [Interactive m]
           \<and> timeToFirstFrameMs m = Finite 0 \<and> firstFrameTimeMs m = Finite 0
           \<and> score (markInteractive now s) = Some sc
           \<and> ttff (breakdown sc) = Finite 100"
proof -
  define m where "m =
     \<lparr>timeToFirstFrameMs = Finite 0,
      timeToInteractiveMs = Some (js_sub now (mountStartTimeMsRef s)),
      firstInputDelay = firstInputDelayRef s,
      mountStartTimeMs = mountStartTimeMsRef s,
      firstFrameTimeMs = Finite 0,
      interactiveTimeMs = Some now\<rparr>"
  have z: "timeToFirstFrameMs m = Finite 0" "firstFrameTimeMs m = Finite 0"
    by (simp_all add: m_def)
  have sc: "ttff (breakdown (calculatePerformanceScore m DEFAULT_THRESHOLDS DEFAULT_WEIGHTS))
              = Finite 100"
    using z(1) by (rule ttff_score_default_zero)
  have "metricsRef (markInteractive now s) = Some m"
       "metrics (markInteractive now s) = Some m"
       "calls (markInteractive now s) = calls s @ [Interactive m]"
       "score (markInteractive now s)
          = Some (calculatePerformanceScore m DEFAULT_THRESHOLDS DEFAULT_WEIGHTS)"
    using assms
    by (simp_all add: markInteractive_def setTimeout_def js_or_num_def Let_def m_def
          split: option.splits)
  with z sc show ?thesis by auto
qed

theorem markInteractive_before_first_frame_witness:
  "metricsRef (run [Effect (Finite 1005)] (usePerformanceMeasurement (Finite 1000))) = None
   \<and> interactiveTimeMsRef (run [Effect (Finite 1005)] (usePerformanceMeasurement (Finite 1000))) = None
   \<and> (\<exists>m sc. calls (run [Effect (Finite 1005), MarkInteractive (Finite 1010)]
                         (usePerformanceMeasurement (Finite 1000)))
                = [Interactive m]
        \<and> timeToFirstFrameMs m = Finite 0 \<and> firstFrameTimeMs m = Finite 0
        \<and> score (run [Effect (Finite 1005), MarkInteractive (Finite 1010)]
                    (usePerformanceMeasurement (Finite 1000)))
            = Some sc
        \<and> ttff (breakdown sc) = Finite 100)"
proof -
  let ?s = "run [Effect (Finite 1005)] (usePerformanceMeasurement (Finite 1000))"
  have a: "metricsRef ?s = None" "interactiveTimeMsRef ?s = None" "calls ?s = []"
    by (simp_all add: run_def usePerformanceMeasurement_def firstFrameEffect_def Let_def)
  have r: "run [Effect (Finite 1005), MarkInteractive (Finite 1010)]
             (usePerformanceMeasurement (Finite 1000))
            = markInteractive (Finite 1010) ?s"
    by (simp add: run_def)
  from markInteractive_before_first_frame [OF a(1) a(2), of "Finite 1010"] a r show ?thesis
    by auto
qed

section \<open>The first input\<close>

lemma set_map_filter_id: "d \<in> set (List.map_filter id xs) \<longleftrightarrow> Some d \<in> set xs"
  by (induction xs) (auto split: option.splits)

lemma firstInputRecords_iff:
  "d \<in> set (firstInputRecords s) \<longleftrightarrow>
     firstInputDelayRef s = Some d
     \<or> Option.bind (metricsRef s) firstInputDelay = Some d
     \<or> Option.bind (metrics s) firstInputDelay = Some d
     \<or> (\<exists>c \<in> set (calls s). firstInputDelay (callbackMetrics c) = Some d)"
  unfolding firstInputRecords_def set_map_filter_id by (auto simp: image_iff) metis+

lemma logFinalMetrics_records:
  "d \<in> set (firstInputRecords (logFinalMetrics s)) \<Longrightarrow> d \<in> set (firstInputRecords s)"
  unfolding firstInputRecords_iff
  by (auto simp: logFinalMetrics_def clearTimeout_def Let_def split: option.splits if_splits)

lemma logFinalMetrics_firstInputOnce:
  "firstInputOnce s \<Longrightarrow> firstInputOnce (logFinalMetrics s)"
  unfolding firstInputOnce_def
  using logFinalMetrics_records [of _ s] by (auto simp: logFinalMetrics_input_fields)

lemma markInteractive_input_fields:
  "microtasks (markInteractive now s) = microtasks s"
  "hasRecordedFirstInputRef (markInteractive now s) = hasRecordedFirstInputRef s"
  "firstInputDelayRef (markInteractive now s) = firstInputDelayRef s"
  by (simp_all add: markInteractive_def setTimeout_def Let_def)

lemma markInteractive_records:
  "d \<in> set (firstInputRecords (markInteractive now s)) \<Longrightarrow> d \<in> set (firstInputRecords s)"
  unfolding firstInputRecords_iff
  by (auto simp: markInteractive_def setTimeout_def Let_def split: option.splits if_splits)

lemma markInteractive_firstInputOnce:
  "firstInputOnce s \<Longrightarrow> firstInputOnce (markInteractive now s)"
  unfolding firstInputOnce_def
  using markInteractive_records [of _ now s] by (auto simp: markInteractive_input_fields)

lemma firstFrameTask_records:
  "d \<in> set (firstInputRecords (firstFrameTask s)) \<Longrightarrow> d \<in> set (firstInputRecords s)"
  unfolding firstInputRecords_iff
  by (auto simp: firstFrameTask_def Let_def split: option.splits if_splits)

lemma firstFrameTask_input_fields:
  "microtasks (firstFrameTask s) = microtasks s"
  "hasRecordedFirstInputRef (firstFrameTask s) = hasRecordedFirstInputRef s"
  "firstInputDelayRef (firstFrameTask s) = firstInputDelayRef s"
  by (simp_all add: firstFrameTask_def Let_def split: option.splits)

lemma firstFrameTask_firstInputOnce:
  "firstInputOnce s \<Longrightarrow> firstInputOnce (firstFrameTask s)"
  unfolding firstInputOnce_def
  using firstFrameTask_records [of _ s] by (auto simp: firstFrameTask_input_fields)

lemma measureFirstInputDelay_firstInputOnce:
  "firstInputOnce s \<Longrightarrow> firstInputOnce (fst (measureFirstInputDelay k now s))"
  unfolding firstInputOnce_def firstInputRecords_iff
  by (auto simp: measureFirstInputDelay_def)

lemma firstInputTask_firstInputOnce:
  assumes "firstInputOnce s" and "microtasks s = FirstInputTask inputTime k # rest"
  shows "firstInputOnce (firstInputTask inputTime k now (s\<lparr>microtasks := rest\<rparr>))"
proof -
  have none: "firstInputDelayRef s = None" and rest: "filter isFirstInputTask rest = []"
    and rec: "hasRecordedFirstInputRef s"
    using assms by (auto simp: firstInputOnce_def)
  have empty: "\<forall>x. x \<notin> set (firstInputRecords s)"
    using assms(1) none by (auto simp: firstInputOnce_def)
  define d where "d = \<lparr>firstInputDelayMs = js_sub now inputTime, firstInputTimeMs = inputTime,
                       inputProcessingStartTimeMs = now, inputType = k\<rparr>"
  define s2 where "s2 =
     (case metricsRef s of
        Some current \<Rightarrow>
          s\<lparr>microtasks := rest, firstInputDelayRef := Some d,
            metricsRef := Some (current\<lparr>firstInputDelay := Some d\<rparr>),
            metrics := Some (current\<lparr>firstInputDelay := Some d\<rparr>),
            score := Some (calculatePerformanceScore (current\<lparr>firstInputDelay := Some d\<rparr>)
                       DEFAULT_THRESHOLDS DEFAULT_WEIGHTS),
            calls := calls s @ [MetricsReady (current\<lparr>firstInputDelay := Some d\<rparr>)]\<rparr>
      | None \<Rightarrow> s\<lparr>microtasks := rest, firstInputDelayRef := Some d\<rparr>)"
  have eq: "firstInputTask inputTime k now (s\<lparr>microtasks := rest\<rparr>) = logFinalMetrics s2"
    by (simp add: firstInputTask_def Let_def s2_def d_def split: option.splits)
  from empty have old: "\<And>x. firstInputDelayRef s \<noteq> Some x"
      "\<And>x. Option.bind (metricsRef s) firstInputDelay \<noteq> Some x"
      "\<And>x. Option.bind (metrics s) firstInputDelay \<noteq> Some x"
      "\<And>x c. c \<in> set (calls s) \<Longrightarrow> firstInputDelay (callbackMetrics c) \<noteq> Some x"
    unfolding firstInputRecords_iff by blast+
  have "firstInputOnce s2"
    unfolding firstInputOnce_def firstInputRecords_iff
    using rest rec old by (auto simp: s2_def split: option.splits)
  then show ?thesis unfolding eq by (rule logFinalMetrics_firstInputOnce)
qed

lemma step_firstInputOnce: "firstInputOnce s \<Longrightarrow> firstInputOnce (step s e)"
proof (cases e)
  case (Effect now)
  assume "firstInputOnce s"
  then show ?thesis using Effect
    unfolding firstInputOnce_def firstInputRecords_iff
    by (auto simp: firstFrameEffect_def Let_def)
next
  case (MarkInteractive now)
  assume "firstInputOnce s"
  then show ?thesis using MarkInteractive by (simp add: markInteractive_firstInputOnce)
next
  case (TouchStart now)
  assume "firstInputOnce s"
  then show ?thesis using TouchStart
    by (simp add: onStartShouldSetPanResponder_def measureFirstInputDelay_firstInputOnce)
next
  case (MoveStart now)
  assume "firstInputOnce s"
  then show ?thesis using MoveStart
    by (simp add: onMoveShouldSetPanResponder_def measureFirstInputDelay_firstInputOnce)
next
  case (RunMicrotask now)
  assume inv: "firstInputOnce s"
  show ?thesis
  proof (cases "microtasks s")
    case Nil
    then show ?thesis using inv RunMicrotask by simp
  next
    case (Cons task rest)
    show ?thesis
    proof (cases task)
      case FirstFrameTask
      have "firstInputOnce (s\<lparr>microtasks := rest\<rparr>)"
        using inv Cons FirstFrameTask unfolding firstInputOnce_def firstInputRecords_iff
        by auto
      then show ?thesis using RunMicrotask Cons FirstFrameTask
        by (simp add: firstFrameTask_firstInputOnce)
    next
      case (FirstInputTask inputTime k)
      then show ?thesis using RunMicrotask Cons inv
        by (simp add: firstInputTask_firstInputOnce)
    qed
  qed
next
  case (TimerFires h)
  assume inv: "firstInputOnce s"
  have "firstInputOnce (clearTimeout h s)"
    using inv unfolding firstInputOnce_def firstInputRecords_iff
    by (auto simp: clearTimeout_def)
  then show ?thesis using TimerFires inv by (simp add: logFinalMetrics_firstInputOnce)
next
  case Unmount
  assume inv: "firstInputOnce s"
  then show ?thesis using Unmount
    unfolding firstInputOnce_def firstInputRecords_iff
    by (auto simp: cleanup_def clearTimeout_def split: option.splits)
qed

lemma run_firstInputOnce: "firstInputOnce s \<Longrightarrow> firstInputOnce (run es s)"
  by (induction es arbitrary: s) (simp_all add: run_Nil run_Cons step_firstInputOnce)

lemma init_firstInputOnce: "firstInputOnce (usePerformanceMeasurement mountTime)"
  unfolding firstInputOnce_def firstInputRecords_iff
  by (simp add: usePerformanceMeasurement_def)

lemma step_firstInputDelayRef:
  assumes "firstInputOnce s" and "firstInputDelayRef s = Some d"
  shows "firstInputDelayRef (step s e) = Some d"
proof (cases e)
  case (RunMicrotask now)
  show ?thesis
  proof (cases "microtasks s")
    case Nil
    then show ?thesis using assms RunMicrotask by simp
  next
    case (Cons task rest)
    then have "task = FirstFrameTask"
      using assms by (cases task) (auto simp: firstInputOnce_def)
    then show ?thesis using assms RunMicrotask Cons
      by (simp add: firstFrameTask_input_fields)
  qed
qed (use assms in \<open>simp_all add: firstFrameEffect_def markInteractive_input_fields
       onStartShouldSetPanResponder_def onMoveShouldSetPanResponder_def
       measureFirstInputDelay_def logFinalMetrics_input_fields cleanup_def clearTimeout_def
       Let_def split: option.splits\<close>)

lemma run_firstInputDelayRef:
  "firstInputOnce s \<Longrightarrow> firstInputDelayRef s = Some d \<Longrightarrow> firstInputDelayRef (run es s) = Some d"
  by (induction es arbitrary: s)
     (simp_all add: run_Nil run_Cons step_firstInputOnce step_firstInputDelayRef)

lemma firstGesture_snoc:
  "firstGesture (es @ [e]) = (case firstGesture es of Some g \<Rightarrow> Some g | None \<Rightarrow> gesture e)"
  by (induction es) (auto split: option.splits)

lemma firstFrameEffect_input_fields:
  "microtasks (firstFrameEffect now s) = microtasks s @ [FirstFrameTask]"
  "hasRecordedFirstInputRef (firstFrameEffect now s) = hasRecordedFirstInputRef s"
  "firstInputDelayRef (firstFrameEffect now s) = firstInputDelayRef s"
  by (simp_all add: firstFrameEffect_def Let_def)

lemma clearTimeout_input_fields:
  "microtasks (clearTimeout h s) = microtasks s"
  "hasRecordedFirstInputRef (clearTimeout h s) = hasRecordedFirstInputRef s"
  "firstInputDelayRef (clearTimeout h s) = firstInputDelayRef s"
  by (simp_all add: clearTimeout_def)

lemma cleanup_input_fields:
  "microtasks (cleanup s) = microtasks s"
  "hasRecordedFirstInputRef (cleanup s) = hasRecordedFirstInputRef s"
  "firstInputDelayRef (cleanup s) = firstInputDelayRef s"
  by (simp_all add: cleanup_def clearTimeout_def split: option.splits)

lemma firstInputTask_input_fields:
  "microtasks (firstInputTask inputTime k now s) = microtasks s"
  "hasRecordedFirstInputRef (firstInputTask inputTime k now s) = hasRecordedFirstInputRef s"
  "firstInputDelayRef (firstInputTask inputTime k now s) =
     Some \<lparr>firstInputDelayMs = js_sub now inputTime, firstInputTimeMs = inputTime,
           inputProcessingStartTimeMs = now, inputType = k\<rparr>"
  by (simp_all add: firstInputTask_def Let_def logFinalMetrics_input_fields split: option.splits)

lemma firstWins_other:
  assumes "firstWins es s" and "gesture e = None"
    and "hasRecordedFirstInputRef s' = hasRecordedFirstInputRef s"
    and "set (microtasks s') \<subseteq> insert FirstFrameTask (set (microtasks s))"
    and "firstInputDelayRef s' = firstInputDelayRef s"
  shows "firstWins (es @ [e]) s'"
proof -
  have g: "firstGesture (es @ [e]) = firstGesture es"
    using assms(2) by (simp add: firstGesture_snoc split: option.splits)
  have "\<And>inputTime k. FirstInputTask inputTime k \<in> set (microtasks s') \<Longrightarrow>
          FirstInputTask inputTime k \<in> set (microtasks s)"
    using assms(4) by auto
  then show ?thesis using assms(1,3,5) unfolding firstWins_def g by metis
qed

lemma firstWins_gesture:
  assumes "firstWins es s" and "gesture e = Some (now, k)"
  shows "firstWins (es @ [e]) (fst (measureFirstInputDelay k now s))"
proof (cases "hasRecordedFirstInputRef s")
  case True
  then have "firstGesture es \<noteq> None" using assms(1) by (simp add: firstWins_def)
  then have g: "firstGesture (es @ [e]) = firstGesture es"
    by (auto simp: firstGesture_snoc)
  have "fst (measureFirstInputDelay k now s) = s"
    using True by (simp add: measureFirstInputDelay_def)
  then show ?thesis using assms(1) unfolding firstWins_def g by simp
next
  case False
  then have n: "firstGesture es = None"
    using assms(1) by (cases "firstGesture es") (simp_all add: firstWins_def)
  then have g: "firstGesture (es @ [e]) = Some (now, k)"
    using assms(2) by (simp add: firstGesture_snoc)
  have q: "\<And>inputTime j. FirstInputTask inputTime j \<notin> set (microtasks s)"
    using assms(1) n unfolding firstWins_def by (metis option.distinct(1))
  have r: "firstInputDelayRef s = None"
    using assms(1) n unfolding firstWins_def by (metis option.distinct(1) option.exhaust)
  have f: "hasRecordedFirstInputRef (fst (measureFirstInputDelay k now s))"
      "microtasks (fst (measureFirstInputDelay k now s)) = microtasks s @ [FirstInputTask now k]"
      "firstInputDelayRef (fst (measureFirstInputDelay k now s)) = None"
    using False r by (simp_all add: measureFirstInputDelay_def)
  show ?thesis using q f by (simp add: firstWins_def g)
qed

lemma firstWins_task:
  assumes "firstWins es s" and "microtasks s = FirstInputTask inputTime k # rest"
  shows "firstWins (es @ [RunMicrotask now])
           (firstInputTask inputTime k now (s\<lparr>microtasks := rest\<rparr>))"
proof -
  have g0: "firstGesture es = Some (inputTime, k)"
    using assms unfolding firstWins_def by (metis list.set_intros(1))
  then have g: "firstGesture (es @ [RunMicrotask now]) = Some (inputTime, k)"
    by (simp add: firstGesture_snoc)
  have h: "hasRecordedFirstInputRef s" using assms(1) g0 by (simp add: firstWins_def)
  have q: "\<And>i j. FirstInputTask i j \<in> set rest \<Longrightarrow> (i, j) = (inputTime, k)"
    using assms g0 unfolding firstWins_def by (metis list.set_intros(2) option.inject)
  show ?thesis
    unfolding firstWins_def g firstInputTask_input_fields using h q by auto
qed

lemma step_firstWins:
  assumes "firstWins es s"
  shows "firstWins (es @ [e]) (step s e)"
proof (cases e)
  case (Effect now)
  then show ?thesis using assms
    by (auto intro!: firstWins_other simp: firstFrameEffect_input_fields)
next
  case (MarkInteractive now)
  then show ?thesis using assms
    by (auto intro!: firstWins_other simp: markInteractive_input_fields)
next
  case (TouchStart now)
  then show ?thesis using firstWins_gesture [OF assms, of e now Touch]
    by (simp add: onStartShouldSetPanResponder_def)
next
  case (MoveStart now)
  then show ?thesis using firstWins_gesture [OF assms, of e now Scroll]
    by (simp add: onMoveShouldSetPanResponder_def)
next
  case (RunMicrotask now)
  show ?thesis
  proof (cases "microtasks s")
    case Nil
    then show ?thesis using assms RunMicrotask by (auto intro!: firstWins_other)
  next
    case (Cons task rest)
    show ?thesis
    proof (cases task)
      case FirstFrameTask
      have "firstWins (es @ [e]) (firstFrameTask (s\<lparr>microtasks := rest\<rparr>))"
        using assms RunMicrotask Cons
        by (intro firstWins_other [of es s]) (auto simp: firstFrameTask_input_fields)
      then show ?thesis using RunMicrotask Cons FirstFrameTask by simp
    next
      case (FirstInputTask inputTime k)
      then show ?thesis using RunMicrotask Cons firstWins_task [OF assms, of inputTime k rest now]
        by simp
    qed
  qed
next
  case (TimerFires h)
  then show ?thesis using assms
    by (auto intro!: firstWins_other
          simp: logFinalMetrics_input_fields clearTimeout_input_fields)
next
  case Unmount
  then show ?thesis using assms
    by (auto intro!: firstWins_other simp: cleanup_input_fields)
qed

lemma run_firstWins: "firstWins es (run es (usePerformanceMeasurement mountTime))"
proof (induction es rule: rev_induct)
  case Nil
  then show ?case by (simp add: firstWins_def run_Nil usePerformanceMeasurement_def)
next
  case (snoc e es)
  then show ?case by (simp add: run_snoc step_firstWins)
qed

lemma handler_facts:
  "snd (measureFirstInputDelay k now s) = False"
  "snd (onStartShouldSetPanResponder now s) = False"
  "snd (onMoveShouldSetPanResponder now s) = False"
  "hasRecordedFirstInputRef s \<longrightarrow> fst (measureFirstInputDelay k now s) = s"
  "hasRecordedFirstInputRef (fst (measureFirstInputDelay k now s))"
  by (simp_all add: measureFirstInputDelay_def onStartShouldSetPanResponder_def
        onMoveShouldSetPanResponder_def)

lemma records_same:
  assumes "firstInputOnce s" and "firstWins es s" and "d \<in> set (firstInputRecords s)"
  shows "firstInputDelayRef s = Some d \<and> firstGesture es = Some (firstInputTimeMs d, inputType d)"
proof -
  have r: "firstInputDelayRef s = Some d" using assms(1,3) unfolding firstInputOnce_def by blast
  then show ?thesis using assms(2) unfolding firstWins_def by blast
qed

lemma records_keep:
  assumes "firstInputOnce s" and "firstInputDelayRef s = Some d"
  shows "firstInputDelayRef (run es' s) = Some d"
  using assms by (rule run_firstInputDelayRef)

text \<open>
  C8. At most one first-input record exists in the life of a hook. The gesture handler
  always returns false, for a touch as for a move, and once the guard flag is set it changes
  nothing. In every run at most one closure is waiting to measure, every record found in the
  refs, the state or the arguments of an observer is the one of \<open>firstInputDelayRef\<close>, it
  is the record of the first gesture of the run, and once stored it stays whatever follows.
\<close>

theorem first_input_once:
  "snd (measureFirstInputDelay k now s) = False
   \<and> snd (onStartShouldSetPanResponder now s) = False
   \<and> snd (onMoveShouldSetPanResponder now s) = False
   \<and> (hasRecordedFirstInputRef s \<longrightarrow> fst (measureFirstInputDelay k now s) = s)
   \<and> hasRecordedFirstInputRef (fst (measureFirstInputDelay k now s))
   \<and> length (filter isFirstInputTask (microtasks (run es (usePerformanceMeasurement mountTime)))) \<le> 1
   \<and> (\<forall>d. d \<in> set (firstInputRecords (run es (usePerformanceMeasurement mountTime))) \<longrightarrow>
          firstInputDelayRef (run es (usePerformanceMeasurement mountTime)) = Some d
          \<and> firstGesture es = Some (firstInputTimeMs d, inputType d))
   \<and> (\<forall>d. firstInputDelayRef (run es (usePerformanceMeasurement mountTime)) = Some d \<longrightarrow>
          firstInputDelayRef (run (es @ es') (usePerformanceMeasurement mountTime)) = Some d)"
proof (intro conjI allI impI)
  let ?s = "run es (usePerformanceMeasurement mountTime)"
  have inv: "firstInputOnce ?s" by (rule run_firstInputOnce [OF init_firstInputOnce])
  have win: "firstWins es ?s" by (rule run_firstWins)
  show "length (filter isFirstInputTask (microtasks ?s)) \<le> 1"
    using inv unfolding firstInputOnce_def by (rule conjunct1)
  show "firstInputDelayRef ?s = Some d" if "d \<in> set (firstInputRecords ?s)" for d
    using records_same [OF inv win that] by (rule conjunct1)
  show "firstGesture es = Some (firstInputTimeMs d, inputType d)"
    if "d \<in> set (firstInputRecords ?s)" for d
    using records_same [OF inv win that] by (rule conjunct2)
  show "firstInputDelayRef (run (es @ es') (usePerformanceMeasurement mountTime)) = Some d"
    if "firstInputDelayRef ?s = Some d" for d
    unfolding run_append using inv that by (rule records_keep)
qed (simp_all only: handler_facts)

theorem first_input_once_witness:
  "(let es = [Effect (Finite 1005), RunMicrotask (Finite 1006), TouchStart (Finite 1500),
              MoveStart (Finite 1501), RunMicrotask (Finite 1503)];
        d = \<lparr>firstInputDelayMs = Finite 3, firstInputTimeMs = Finite 1500,
             inputProcessingStartTimeMs = Finite 1503, inputType = Touch\<rparr>
    in d \<in> set (firstInputRecords (run es (usePerformanceMeasurement (Finite 1000))))
       \<and> firstInputDelayRef (run es (usePerformanceMeasurement (Finite 1000))) = Some d
       \<and> firstGesture es = Some (Finite 1500, Touch)
       \<and> firstInputDelayRef (run (es @ [TouchStart (Finite 1600), RunMicrotask (Finite 1601)])
            (usePerformanceMeasurement (Finite 1000))) = Some d
       \<and> hasRecordedFirstInputRef (run es (usePerformanceMeasurement (Finite 1000)))
       \<and> fst (measureFirstInputDelay Scroll (Finite 1700) (run es (usePerformanceMeasurement (Finite 1000))))
           = run es (usePerformanceMeasurement (Finite 1000)))"
proof -
  define es where "es = [Effect (Finite 1005), RunMicrotask (Finite 1006), TouchStart (Finite 1500),
                         MoveStart (Finite 1501), RunMicrotask (Finite 1503)]"
  define d where "d = \<lparr>firstInputDelayMs = Finite 3, firstInputTimeMs = Finite 1500,
             inputProcessingStartTimeMs = Finite 1503, inputType = Touch\<rparr>"
  let ?s = "run es (usePerformanceMeasurement (Finite 1000))"
  have j: "js_sub (Finite 1503) (Finite 1500) = Finite 3" by (simp add: eval_simps)
  have a: "firstInputDelayRef ?s = Some d" "hasRecordedFirstInputRef ?s"
    unfolding es_def d_def by (simp_all add: hook_defs j)
  then have b: "d \<in> set (firstInputRecords ?s)" by (simp add: firstInputRecords_def)
  note t = first_input_once
    [where es = es and mountTime = "Finite 1000"
       and ?es' = "[TouchStart (Finite 1600), RunMicrotask (Finite 1601)]"
       and s = ?s and k = Scroll and now = "Finite 1700"]
  have c: "firstGesture es = Some (Finite 1500, Touch)" using t b by (auto simp: d_def)
  have e: "firstInputDelayRef (run (es @ [TouchStart (Finite 1600), RunMicrotask (Finite 1601)])
            (usePerformanceMeasurement (Finite 1000))) = Some d" using t a by blast
  have f: "fst (measureFirstInputDelay Scroll (Finite 1700) ?s) = ?s" using t a by blast
  from a b c e f show ?thesis unfolding Let_def es_def d_def by simp
qed

section \<open>Finalization\<close>

lemma logFinalMetrics_finalized:
  assumes "reportOnce s" and "\<not> hasLoggedRef s" and "metricsRef s \<noteq> None"
  shows "finalized (logFinalMetrics s)"
  using assms
  by (auto simp: reportOnce_def finalized_def logFinalMetrics_def clearTimeout_def Let_def
        split: option.splits)

lemma logFinalMetrics_reportOnce: "reportOnce s \<Longrightarrow> reportOnce (logFinalMetrics s)"
  by (auto simp: reportOnce_def logFinalMetrics_def clearTimeout_def Let_def
        split: option.splits)

lemma firstInputTask_reportOnce:
  "reportOnce s \<Longrightarrow> reportOnce (firstInputTask inputTime k now s)"
proof -
  assume inv: "reportOnce s"
  define d where "d = \<lparr>firstInputDelayMs = js_sub now inputTime, firstInputTimeMs = inputTime,
                       inputProcessingStartTimeMs = now, inputType = k\<rparr>"
  define s2 where "s2 =
     (case metricsRef s of
        Some current \<Rightarrow>
          s\<lparr>firstInputDelayRef := Some d,
            metricsRef := Some (current\<lparr>firstInputDelay := Some d\<rparr>),
            metrics := Some (current\<lparr>firstInputDelay := Some d\<rparr>),
            score := Some (calculatePerformanceScore (current\<lparr>firstInputDelay := Some d\<rparr>)
                       DEFAULT_THRESHOLDS DEFAULT_WEIGHTS),
            calls := calls s @ [MetricsReady (current\<lparr>firstInputDelay := Some d\<rparr>)]\<rparr>
      | None \<Rightarrow> s\<lparr>firstInputDelayRef := Some d\<rparr>)"
  have eq: "firstInputTask inputTime k now s = logFinalMetrics s2"
    by (simp add: firstInputTask_def Let_def s2_def d_def split: option.splits)
  have "reportOnce s2" using inv by (auto simp: reportOnce_def s2_def split: option.splits)
  then show ?thesis unfolding eq by (rule logFinalMetrics_reportOnce)
qed

lemma firstInputTask_finalized:
  assumes "reportOnce s" and "\<not> hasLoggedRef s" and "metricsRef s \<noteq> None"
  shows "finalized (firstInputTask inputTime k now s)"
proof -
  define d where "d = \<lparr>firstInputDelayMs = js_sub now inputTime, firstInputTimeMs = inputTime,
                       inputProcessingStartTimeMs = now, inputType = k\<rparr>"
  obtain current where cur: "metricsRef s = Some current" using assms(3) by blast
  define s2 where "s2 =
          s\<lparr>firstInputDelayRef := Some d,
            metricsRef := Some (current\<lparr>firstInputDelay := Some d\<rparr>),
            metrics := Some (current\<lparr>firstInputDelay := Some d\<rparr>),
            score := Some (calculatePerformanceScore (current\<lparr>firstInputDelay := Some d\<rparr>)
                       DEFAULT_THRESHOLDS DEFAULT_WEIGHTS),
            calls := calls s @ [MetricsReady (current\<lparr>firstInputDelay := Some d\<rparr>)]\<rparr>"
  have eq: "firstInputTask inputTime k now s = logFinalMetrics s2"
    using cur by (simp add: firstInputTask_def Let_def s2_def d_def)
  have "reportOnce s2" "\<not> hasLoggedRef s2" "metricsRef s2 \<noteq> None"
    using assms by (auto simp: reportOnce_def s2_def)
  then show ?thesis unfolding eq by (rule logFinalMetrics_finalized)
qed

lemma step_reportOnce: "reportOnce s \<Longrightarrow> reportOnce (step s e)"
proof (cases e)
  case (MarkInteractive now)
  assume "reportOnce s"
  then show ?thesis using MarkInteractive
    by (auto simp: reportOnce_def markInteractive_def setTimeout_def Let_def)
next
  case (RunMicrotask now)
  assume inv: "reportOnce s"
  show ?thesis
  proof (cases "microtasks s")
    case Nil
    then show ?thesis using inv RunMicrotask by simp
  next
    case (Cons task rest)
    have q: "reportOnce (s\<lparr>microtasks := rest\<rparr>)" using inv by (simp add: reportOnce_def)
    show ?thesis
    proof (cases task)
      case FirstFrameTask
      then show ?thesis using q RunMicrotask Cons
        by (auto simp: reportOnce_def firstFrameTask_def Let_def split: option.splits)
    next
      case (FirstInputTask inputTime k)
      then show ?thesis using q RunMicrotask Cons by (simp add: firstInputTask_reportOnce)
    qed
  qed
next
  case (TimerFires h)
  assume inv: "reportOnce s"
  have "reportOnce (clearTimeout h s)"
    using inv by (auto simp: reportOnce_def clearTimeout_def split: if_splits)
  then show ?thesis using TimerFires inv by (simp add: logFinalMetrics_reportOnce)
next
  case Unmount
  assume "reportOnce s"
  then show ?thesis using Unmount
    by (auto simp: reportOnce_def cleanup_def clearTimeout_def split: option.splits)
qed (auto simp: reportOnce_def firstFrameEffect_def onStartShouldSetPanResponder_def
       onMoveShouldSetPanResponder_def measureFirstInputDelay_def Let_def)

lemma run_reportOnce: "reportOnce s \<Longrightarrow> reportOnce (run es s)"
  by (induction es arbitrary: s) (simp_all add: run_Nil run_Cons step_reportOnce)

lemma init_reportOnce: "reportOnce (usePerformanceMeasurement mountTime)"
  by (simp add: reportOnce_def usePerformanceMeasurement_def)

lemma step_firstFrameFirst: "firstFrameFirst s \<Longrightarrow> firstFrameFirst (step s e)"
proof (cases e)
  case (RunMicrotask now)
  assume inv: "firstFrameFirst s"
  show ?thesis
  proof (cases "microtasks s")
    case Nil
    then show ?thesis using inv RunMicrotask by simp
  next
    case (Cons task rest)
    show ?thesis
    proof (cases task)
      case FirstFrameTask
      then show ?thesis using inv RunMicrotask Cons
        by (auto simp: firstFrameFirst_def firstFrameTask_def Let_def split: option.splits)
    next
      case (FirstInputTask inputTime k)
      then have "metricsRef s \<noteq> None" using inv Cons by (auto simp: firstFrameFirst_def)
      then show ?thesis using FirstInputTask RunMicrotask Cons
        by (auto simp: firstFrameFirst_def firstInputTask_def logFinalMetrics_populated Let_def)
    qed
  qed
next
  case (MarkInteractive now)
  assume "firstFrameFirst s"
  then show ?thesis using MarkInteractive
    by (auto simp: firstFrameFirst_def markInteractive_def setTimeout_def Let_def)
qed (auto simp: firstFrameFirst_def firstFrameEffect_def onStartShouldSetPanResponder_def
       onMoveShouldSetPanResponder_def measureFirstInputDelay_def cleanup_def clearTimeout_def
       logFinalMetrics_populated logFinalMetrics_queue Let_def split: option.splits)

lemma run_firstFrameFirst: "firstFrameFirst s \<Longrightarrow> firstFrameFirst (run es s)"
  by (induction es arbitrary: s) (simp_all add: run_Nil run_Cons step_firstFrameFirst)

lemma effect_firstFrameFirst:
  "firstFrameFirst (step (usePerformanceMeasurement mountTime) (Effect frameTime))"
  by (simp add: firstFrameFirst_def usePerformanceMeasurement_def firstFrameEffect_def Let_def)

lemma timer_finalized:
  assumes "reportOnce s" and "\<not> hasLoggedRef s" and "h \<in> set (timers s)"
  shows "finalized (step s (TimerFires h))"
proof -
  have "reportOnce (clearTimeout h s)" "\<not> hasLoggedRef (clearTimeout h s)"
       "metricsRef (clearTimeout h s) \<noteq> None"
    using assms by (auto simp: reportOnce_def clearTimeout_def)
  then have "finalized (logFinalMetrics (clearTimeout h s))" by (rule logFinalMetrics_finalized)
  then show ?thesis using assms(3) by simp
qed

lemma populated_input_finalized:
  assumes "reportOnce s" and "\<not> hasLoggedRef s" and "metricsRef s \<noteq> None"
    and "microtasks s = FirstInputTask inputTime k # rest"
  shows "finalized (step s (RunMicrotask now))"
proof -
  have "reportOnce (s\<lparr>microtasks := rest\<rparr>)" "\<not> hasLoggedRef (s\<lparr>microtasks := rest\<rparr>)"
       "metricsRef (s\<lparr>microtasks := rest\<rparr>) \<noteq> None"
    using assms by (auto simp: reportOnce_def)
  then have "finalized (firstInputTask inputTime k now (s\<lparr>microtasks := rest\<rparr>))"
    by (rule firstInputTask_finalized)
  then show ?thesis using assms(4) by simp
qed

text \<open>
  The non-null assertion of the first-frame closure holds in every run: when the closure is
  at the head of the queue, \<open>firstFrameTimeMsRef\<close> is set.
\<close>

lemma firstInputTask_frame_fields:
  "firstFrameTimeMsRef (firstInputTask inputTime k now s) = firstFrameTimeMsRef s"
  by (simp add: firstInputTask_def Let_def logFinalMetrics_queue split: option.splits)

lemma step_frameStamped: "frameStamped s \<Longrightarrow> frameStamped (step s e)"
proof (cases e)
  case (RunMicrotask now)
  assume inv: "frameStamped s"
  show ?thesis
  proof (cases "microtasks s")
    case Nil
    then show ?thesis using inv RunMicrotask by simp
  next
    case (Cons task rest)
    then show ?thesis using inv RunMicrotask
      by (cases task)
         (auto simp: frameStamped_def firstFrameTask_def firstInputTask_input_fields
            firstInputTask_frame_fields Let_def split: option.splits)
  qed
qed (auto simp: frameStamped_def firstFrameEffect_def markInteractive_def setTimeout_def
       onStartShouldSetPanResponder_def onMoveShouldSetPanResponder_def
       measureFirstInputDelay_def cleanup_def clearTimeout_def logFinalMetrics_queue Let_def
       split: option.splits)

lemma run_frameStamped: "frameStamped s \<Longrightarrow> frameStamped (run es s)"
  by (induction es arbitrary: s) (simp_all add: run_Nil run_Cons step_frameStamped)

lemma firstFrameTask_asserted:
  assumes "microtasks (run es (usePerformanceMeasurement mountTime)) = FirstFrameTask # rest"
  shows "firstFrameTimeMsRef (run es (usePerformanceMeasurement mountTime)) \<noteq> None"
proof -
  have "frameStamped (usePerformanceMeasurement mountTime)"
    by (simp add: frameStamped_def usePerformanceMeasurement_def)
  then have "frameStamped (run es (usePerformanceMeasurement mountTime))"
    by (rule run_frameStamped)
  then show ?thesis using assms by (simp add: frameStamped_def)
qed

text \<open>
  C7, as amended. Finalization runs at most once per hook, whatever triggers it: in every
  run \<open>onReport\<close> is called at most once, and \<open>logFinalMetrics\<close> does nothing once
  \<open>hasLoggedRef\<close> is set. On a hook that is not finalized and whose metrics record exists,
  the trigger that comes first finalizes, be it an armed timer that fires (the record always
  exists then) or the closure of the first input: the guard is set, no timer stays armed,
  and \<open>onReport\<close> has been called exactly once, with the final metrics and their score. A
  timer firing after that changes nothing. In a run that began with the first-frame effect
  the record exists whenever the closure of the first input is next in the queue.
\<close>

theorem finalization_once:
  "length (filter isReport (calls (run es (usePerformanceMeasurement mountTime)))) \<le> 1
   \<and> (hasLoggedRef s \<longrightarrow> logFinalMetrics s = s)
   \<and> (finalized s \<longrightarrow> step s (TimerFires h) = s)
   \<and> (\<not> hasLoggedRef (run es (usePerformanceMeasurement mountTime)) \<longrightarrow>
        (\<forall>h. h \<in> set (timers (run es (usePerformanceMeasurement mountTime))) \<longrightarrow>
           finalized (step (run es (usePerformanceMeasurement mountTime)) (TimerFires h))))
   \<and> (\<not> hasLoggedRef (run es (usePerformanceMeasurement mountTime))
        \<and> metricsRef (run es (usePerformanceMeasurement mountTime)) \<noteq> None \<longrightarrow>
        (\<forall>inputTime k rest now.
           microtasks (run es (usePerformanceMeasurement mountTime))
             = FirstInputTask inputTime k # rest \<longrightarrow>
           finalized (step (run es (usePerformanceMeasurement mountTime)) (RunMicrotask now))))
   \<and> (\<forall>inputTime k rest.
          microtasks (run (Effect frameTime # es) (usePerformanceMeasurement mountTime))
            = FirstInputTask inputTime k # rest \<longrightarrow>
          metricsRef (run (Effect frameTime # es) (usePerformanceMeasurement mountTime)) \<noteq> None)"
proof -
  let ?s = "run es (usePerformanceMeasurement mountTime)"
  let ?m = "run (Effect frameTime # es) (usePerformanceMeasurement mountTime)"
  have inv: "reportOnce ?s" by (rule run_reportOnce [OF init_reportOnce])
  have ff: "firstFrameFirst ?m"
    unfolding run_Cons by (rule run_firstFrameFirst [OF effect_firstFrameFirst])
  have a: "length (filter isReport (calls ?s)) \<le> 1" using inv by (simp add: reportOnce_def)
  have b: "hasLoggedRef s \<longrightarrow> logFinalMetrics s = s" by (simp add: logFinalMetrics_logged)
  have c: "finalized s \<longrightarrow> step s (TimerFires h) = s" by (simp add: finalized_def)
  have d: "\<not> hasLoggedRef ?s \<longrightarrow>
        (\<forall>h. h \<in> set (timers ?s) \<longrightarrow> finalized (step ?s (TimerFires h)))"
    using timer_finalized [OF inv] by blast
  have e: "\<not> hasLoggedRef ?s \<and> metricsRef ?s \<noteq> None \<longrightarrow>
        (\<forall>inputTime k rest now. microtasks ?s = FirstInputTask inputTime k # rest \<longrightarrow>
           finalized (step ?s (RunMicrotask now)))"
    using populated_input_finalized [OF inv] by blast
  have f: "\<forall>inputTime k rest. microtasks ?m = FirstInputTask inputTime k # rest \<longrightarrow>
          metricsRef ?m \<noteq> None"
    using ff by (auto simp: firstFrameFirst_def)
  show ?thesis by (intro conjI) (rule a b c d e f)+
qed

theorem finalization_once_witness:
  "(let s = run [Effect (Finite 1005), RunMicrotask (Finite 1006),
               MarkInteractive (Finite 1010), TouchStart (Finite 1500)]
              (usePerformanceMeasurement (Finite 1000))
    in \<not> hasLoggedRef s \<and> timers s = [1] \<and> microtasks s = [FirstInputTask (Finite 1500) Touch]
       \<and> metricsRef s \<noteq> None
       \<and> finalized (step s (TimerFires 1))
       \<and> finalized (step s (RunMicrotask (Finite 1503)))
       \<and> step (step s (RunMicrotask (Finite 1503))) (TimerFires 1) = step s (RunMicrotask (Finite 1503)))"
proof -
  define s where "s = run [Effect (Finite 1005), RunMicrotask (Finite 1006),
               MarkInteractive (Finite 1010), TouchStart (Finite 1500)]
              (usePerformanceMeasurement (Finite 1000))"
  have a: "\<not> hasLoggedRef s" "timers s = [1]" "microtasks s = [FirstInputTask (Finite 1500) Touch]"
    unfolding s_def by (simp_all add: hook_defs)
  note t = finalization_once
    [where es = "[RunMicrotask (Finite 1006), MarkInteractive (Finite 1010), TouchStart (Finite 1500)]"
       and mountTime = "Finite 1000" and frameTime = "Finite 1005"]
  note u = finalization_once
    [where es = "[Effect (Finite 1005), RunMicrotask (Finite 1006),
               MarkInteractive (Finite 1010), TouchStart (Finite 1500)]"
       and mountTime = "Finite 1000" and s = "step s (RunMicrotask (Finite 1503))" and h = 1]
  have e: "run [Effect (Finite 1005), RunMicrotask (Finite 1006),
               MarkInteractive (Finite 1010), TouchStart (Finite 1500)]
              (usePerformanceMeasurement (Finite 1000)) = s" by (simp add: s_def)
  have m: "metricsRef s \<noteq> None" using t a unfolding e by blast
  have f: "finalized (step s (RunMicrotask (Finite 1503)))" using u a m unfolding e by blast
  then have g: "step (step s (RunMicrotask (Finite 1503))) (TimerFires 1) = step s (RunMicrotask (Finite 1503))"
    using u by blast
  have "finalized (step s (TimerFires 1))" using u a unfolding e by simp
  with a m f g show ?thesis unfolding e Let_def by simp
qed

text \<open>
  C7 as first stated, without the condition on the metrics record, fails. On a hook whose
  first-frame effect has not run yet, a touch is the first trigger; its closure stores the
  record of the input, finds no metrics and returns at the guard of \<open>logFinalMetrics\<close>:
  nothing is finalized and nothing reported. A later \<open>markInteractive\<close> still arms the
  timer, and it is the timer, the second trigger, that finalizes.
\<close>

theorem finalization_once_counterexample:
  "microtasks (run [TouchStart (Finite 1002)] (usePerformanceMeasurement (Finite 1000)))
     = [FirstInputTask (Finite 1002) Touch]
   \<and> \<not> hasLoggedRef (run [TouchStart (Finite 1002)] (usePerformanceMeasurement (Finite 1000)))
   \<and> \<not> finalized (step (run [TouchStart (Finite 1002)] (usePerformanceMeasurement (Finite 1000)))
                      (RunMicrotask (Finite 1003)))
   \<and> \<not> hasLoggedRef (step (run [TouchStart (Finite 1002)] (usePerformanceMeasurement (Finite 1000)))
                         (RunMicrotask (Finite 1003)))
   \<and> calls (step (run [TouchStart (Finite 1002)] (usePerformanceMeasurement (Finite 1000)))
              (RunMicrotask (Finite 1003))) = []
   \<and> timers (run [TouchStart (Finite 1002), RunMicrotask (Finite 1003), MarkInteractive (Finite 1010)]
               (usePerformanceMeasurement (Finite 1000))) = [1]
   \<and> hasLoggedRef (run [TouchStart (Finite 1002), RunMicrotask (Finite 1003),
                           MarkInteractive (Finite 1010), TimerFires 1]
                      (usePerformanceMeasurement (Finite 1000)))"
  by (simp add: hook_defs finalized_def)


end
